theory Spec2Isabelle
  imports Main "HOL-Library.Sublist"
begin

section \<open>Acquisition optimisation: a model of \<^verbatim>\<open>acquisition_optimizer.py\<close>\<close>

text \<open>
  The module defines two classes, \<^verbatim>\<open>ContextManager\<close> and \<^verbatim>\<open>AcquisitionOptimizer\<close>.
  Objects are records, a method takes the object and returns the object it leaves behind,
  and every exception is a value: a result is \<open>Inl e\<close> when the Python raises \<open>e\<close> and
  \<open>Inr v\<close> when it returns \<open>v\<close>.

  The design space, the anchor point generators, \<^verbatim>\<open>choose_optimizer\<close> and
  \<^verbatim>\<open>apply_optimizer\<close> are imported by the module and defined elsewhere; they are
  parameters of the model. They are handed the duplicate manager, the context manager and
  its bounds by reference, so each yields, with its result, these objects as it leaves them.

  The entries of arrays are elements of an arbitrary type with a zero. The values that
  \<^verbatim>\<open>np.argmin\<close> compares are numbers of a linearly ordered type, or NaN, which compares
  false with everything; rounding is outside the model.
\<close>

subsection \<open>Exceptions\<close>

datatype error =
    ValueError
  | IndexError
  | UnboundLocalError
  | AttributeError
  | CollaboratorError string

text \<open>
  The first four are raised by the interpreter or by numpy inside this module.
  \<open>CollaboratorError n\<close> is an exception of class \<open>n\<close> raised inside one of the imported
  collaborators.
\<close>

fun error_name :: "error \<Rightarrow> string" where
  "error_name ValueError = ''ValueError''"
| "error_name IndexError = ''IndexError''"
| "error_name UnboundLocalError = ''UnboundLocalError''"
| "error_name AttributeError = ''AttributeError''"
| "error_name (CollaboratorError n) = n"

text \<open>A list comprehension whose body may raise stops at the first exception.\<close>

fun comprehension :: "('a \<Rightarrow> error + 'b) \<Rightarrow> 'a list \<Rightarrow> error + 'b list" where
  "comprehension g [] = Inr []"
| "comprehension g (a # as) =
     (case g a of
        Inl e \<Rightarrow> Inl e
      | Inr b \<Rightarrow> (case comprehension g as of Inl e \<Rightarrow> Inl e | Inr bs \<Rightarrow> Inr (b # bs)))"

text \<open>\<^verbatim>\<open>xs[i]\<close> on a Python list: a negative index counts from the end.\<close>

definition getitem :: "'a list \<Rightarrow> int \<Rightarrow> error + 'a" where
  "getitem xs i =
     (if 0 \<le> i \<and> i < int (length xs) then Inr (xs ! nat i)
      else if - int (length xs) \<le> i \<and> i < 0 then Inr (xs ! nat (i + int (length xs)))
      else Inl IndexError)"

text \<open>\<^verbatim>\<open>list(range(n))\<close>\<close>

definition range_list :: "nat \<Rightarrow> int list" where
  "range_list n = map int [0..<n]"

subsection \<open>The design space (a collaborator)\<close>

text \<open>
  The module reads three attributes of a variable and four of a space. Indices are Python
  integers. \<open>find_variable\<close> raises when the space has no variable of that name.
\<close>

record ('a, 'w) variable =
  index_in_model :: "int list"
  index_in_objective :: "int list"
  objective_to_model :: "'w \<Rightarrow> 'a list"

record ('a, 'c, 'w) space =
  model_dimensionality :: nat
  config_space_expanded :: "'c list"
  get_bounds :: "('a \<times> 'a) list"
  find_variable :: "string \<Rightarrow> error + ('a, 'w) variable"

subsection \<open>ContextManager\<close>

record ('a, 'c, 'w) ContextManager =
  space :: "('a, 'c, 'w) space"
  all_index :: "int list"
  all_index_obj :: "int list"
  context_index :: "int list"
  context_value :: "'a list"
  context_index_obj :: "int list"
  nocontext_index_obj :: "int list"
  noncontext_bounds :: "('a \<times> 'a) list"
  noncontext_index :: "int list"

text \<open>The assignments of \<^verbatim>\<open>__init__\<close> before the test \<^verbatim>\<open>context is not None\<close>.\<close>

definition init_fields :: "('a, 'c, 'w) space \<Rightarrow> ('a, 'c, 'w) ContextManager" where
  "init_fields sp =
     \<lparr> space = sp,
       all_index = range_list (model_dimensionality sp),
       all_index_obj = range_list (length (config_space_expanded sp)),
       context_index = [],
       context_value = [],
       context_index_obj = [],
       nocontext_index_obj = range_list (length (config_space_expanded sp)),
       noncontext_bounds = get_bounds sp,
       noncontext_index = range_list (model_dimensionality sp) \<rparr>"

text \<open>
  The loop \<^verbatim>\<open>for context_variable in context.keys()\<close>. A context is a dict: its items in
  insertion order, one per key, so that \<^verbatim>\<open>context[context_variable]\<close> is the value paired
  with the key.
\<close>

fun update_context ::
  "('a, 'c, 'w) ContextManager \<Rightarrow> (string \<times> 'w) list \<Rightarrow> error + ('a, 'c, 'w) ContextManager"
where
  "update_context cm [] = Inr cm"
| "update_context cm ((context_variable, v) # rest) =
     (case find_variable (space cm) context_variable of
        Inl e \<Rightarrow> Inl e
      | Inr var \<Rightarrow>
          update_context
            (cm\<lparr> context_index := context_index cm @ index_in_model var,
                 context_index_obj := context_index_obj cm @ index_in_objective var,
                 context_value := context_value cm @ objective_to_model var v \<rparr>)
            rest)"

definition ContextManager_init ::
  "('a, 'c, 'w) space \<Rightarrow> (string \<times> 'w) list option \<Rightarrow> error + ('a, 'c, 'w) ContextManager"
where
  "ContextManager_init sp context =
     (case context of
        None \<Rightarrow> Inr (init_fields sp)
      | Some ctx \<Rightarrow>
          (case update_context (init_fields sp) ctx of
             Inl e \<Rightarrow> Inl e
           | Inr cm \<Rightarrow>
               (let nci = filter (\<lambda>idx. idx \<notin> set (context_index cm)) (all_index cm)
                in case comprehension (getitem (noncontext_bounds cm)) nci of
                     Inl e \<Rightarrow> Inl e
                   | Inr nb \<Rightarrow>
                       Inr (cm\<lparr> noncontext_index := nci,
                               noncontext_bounds := nb,
                               nocontext_index_obj :=
                                 filter (\<lambda>idx. idx \<notin> set (context_index_obj cm))
                                   (all_index_obj cm) \<rparr>))))"

subsection \<open>The numpy operations of \<^verbatim>\<open>_expand_vector\<close>\<close>

text \<open>
  An array is one-dimensional, or two-dimensional with its number of columns and its rows
  (the column count is kept because an array may have no row). The shape of
  \<open>Array2 k rows\<close> is \<open>(length rows, k)\<close>, and every row of a numpy array has \<open>k\<close> entries.
\<close>

datatype 'a ndarray = Array1 "'a list" | Array2 nat "'a list list"

fun rectangular :: "'a ndarray \<Rightarrow> bool" where
  "rectangular (Array1 v) = True"
| "rectangular (Array2 k rows) = list_all (\<lambda>r. length r = k) rows"

fun atleast_2d :: "'a ndarray \<Rightarrow> 'a ndarray" where
  "atleast_2d (Array1 v) = Array2 (length v) [v]"
| "atleast_2d (Array2 k rows) = Array2 k rows"

definition zeros :: "nat \<Rightarrow> nat \<Rightarrow> 'a::zero ndarray" where
  "zeros n d = Array2 d (replicate n (replicate d 0))"

text \<open>An index into an axis of length \<open>d\<close>: negative indices wrap once, anything else raises.\<close>

definition axis_index :: "nat \<Rightarrow> int \<Rightarrow> error + nat" where
  "axis_index d i =
     (if 0 \<le> i \<and> i < int d then Inr (nat i)
      else if - int d \<le> i \<and> i < 0 then Inr (nat (i + int d))
      else Inl IndexError)"

text \<open>
  Broadcasting along one axis to length \<open>m\<close>: an axis of that length stays, an axis of
  length one is repeated.
\<close>

definition stretch :: "nat \<Rightarrow> 'b list \<Rightarrow> 'b list" where
  "stretch m xs = (if length xs = m then xs else replicate m (hd xs))"

definition fits :: "nat \<Rightarrow> nat \<Rightarrow> bool" where
  "fits m l \<longleftrightarrow> l = m \<or> l = 1"

fun broadcast_to :: "nat \<Rightarrow> nat \<Rightarrow> 'a ndarray \<Rightarrow> error + 'a list list" where
  "broadcast_to n k (Array1 v) =
     (if fits k (length v) then Inr (replicate n (stretch k v)) else Inl ValueError)"
| "broadcast_to n k (Array2 w rows) =
     (if fits k w \<and> fits n (length rows) then Inr (stretch n (map (stretch k) rows))
      else Inl ValueError)"

text \<open>
  \<^verbatim>\<open>A[:, idx] = V\<close> with an integer array \<open>idx\<close>: \<open>V\<close> is broadcast to the shape of the
  selection, then column \<open>idx[j]\<close> of every row receives column \<open>j\<close> of the value, in the
  order of \<open>idx\<close> (a repeated index keeps the last value written).
\<close>

definition write_row :: "nat list \<Rightarrow> 'a list \<Rightarrow> 'a list \<Rightarrow> 'a list" where
  "write_row js vs row = fold (\<lambda>(j, v) r. r[j := v]) (zip js vs) row"

fun set_columns :: "'a ndarray \<Rightarrow> int list \<Rightarrow> 'a ndarray \<Rightarrow> error + 'a ndarray" where
  "set_columns (Array1 a) idx V = Inl IndexError"
| "set_columns (Array2 d rows) idx V =
     (case broadcast_to (length rows) (length idx) V of
        Inl e \<Rightarrow> Inl e
      | Inr vals \<Rightarrow>
          (case comprehension (axis_index d) idx of
             Inl e \<Rightarrow> Inl e
           | Inr js \<Rightarrow> Inr (Array2 d (map2 (write_row js) vals rows))))"

fun nrows :: "'a ndarray \<Rightarrow> nat" where
  "nrows (Array1 v) = length v"
| "nrows (Array2 k rows) = length rows"

definition expand_vector ::
  "('a::zero, 'c, 'w) ContextManager \<Rightarrow> 'a ndarray \<Rightarrow> error + 'a ndarray"
where
  "expand_vector cm x0 =
     (let x = atleast_2d x0;
          x_expanded = zeros (nrows x) (model_dimensionality (space cm))
      in case set_columns x_expanded (noncontext_index cm) x of
           Inl e \<Rightarrow> Inl e
         | Inr x_expanded' \<Rightarrow>
             set_columns x_expanded' (context_index cm) (Array1 (context_value cm)))"

subsection \<open>AcquisitionOptimizer\<close>

definition max_objective_anchor_points_logic :: string where
  "max_objective_anchor_points_logic = ''max_objective''"

definition thompson_sampling_anchor_points_logic :: string where
  "thompson_sampling_anchor_points_logic = ''thompson_sampling''"

definition sobol_design_type :: string where
  "sobol_design_type = ''sobol''"

definition random_design_type :: string where
  "random_design_type = ''random''"

text \<open>
  The keyword arguments the constructor looks at. An absent key is \<open>None\<close>.
\<close>

record 'm kwargs =
  kw_model :: "'m option"
  kw_type_anchor_points_logic :: "string option"

text \<open>
  The object. \<open>model\<close> is \<open>None\<close> while the attribute does not exist; \<open>self_f\<close>,
  \<open>self_df\<close>, \<open>self_f_df\<close> and \<open>optimizer\<close> are the attributes \<^verbatim>\<open>self.f\<close>,
  \<^verbatim>\<open>self.df\<close>, \<^verbatim>\<open>self.f_df\<close> and \<^verbatim>\<open>self.optimizer\<close>, which \<^verbatim>\<open>optimize\<close> sets and
  nothing in the module reads. A callable argument is \<open>None\<close> when the caller leaves the
  default.
\<close>

record ('a, 'c, 'w, 'm, 'fn, 'opt) AcquisitionOptimizer =
  space :: "('a, 'c, 'w) space"
  optimizer_name :: string
  kwargs :: "'m kwargs"
  spec_win_cnt :: int
  model :: "'m option"
  type_anchor_points_logic :: string
  context_manager :: "('a, 'c, 'w) ContextManager"
  self_f :: "'fn option"
  self_df :: "'fn option"
  self_f_df :: "'fn option"
  optimizer :: "'opt option"

definition AcquisitionOptimizer_init ::
  "('a, 'c, 'w) space \<Rightarrow> string \<Rightarrow> 'm kwargs \<Rightarrow>
   error + ('a, 'c, 'w, 'm, 'fn, 'opt) AcquisitionOptimizer"
where
  "AcquisitionOptimizer_init sp optimizer_nm kw =
     (case ContextManager_init sp None of
        Inl e \<Rightarrow> Inl e
      | Inr cm \<Rightarrow>
          Inr \<lparr> space = sp,
                optimizer_name = optimizer_nm,
                kwargs = kw,
                spec_win_cnt = 0,
                model = kw_model kw,
                type_anchor_points_logic =
                  (case kw_type_anchor_points_logic kw of
                     Some l \<Rightarrow> l
                   | None \<Rightarrow> max_objective_anchor_points_logic),
                context_manager = cm,
                self_f = None,
                self_df = None,
                self_f_df = None,
                optimizer = None \<rparr>)"

text \<open>
  The two generator classes, each with the arguments of its constructor call in
  \<^verbatim>\<open>optimize\<close>.
\<close>

datatype ('sp, 'fn, 'm) generator =
    ObjectiveAnchorPointsGenerator 'sp string "'fn option"
  | ThompsonSamplingAnchorPointsGenerator 'sp string 'm

text \<open>The keyword arguments of one call of \<^verbatim>\<open>apply_optimizer\<close>.\<close>

record ('a, 'c, 'w, 'fn, 'opt, 'dm, 'p) apply_args =
  arg_optimizer :: 'opt
  arg_anchor :: 'p
  arg_f :: "'fn option"
  arg_df :: "'fn option"
  arg_f_df :: "'fn option"
  arg_duplicate_manager :: "'dm option"
  arg_context_manager :: "('a, 'c, 'w) ContextManager"
  arg_space :: "('a, 'c, 'w) space"

text \<open>
  A value of the objective: a number, or NaN. \<open>number_ge\<close> is \<^verbatim>\<open>>=\<close> on floating point
  numbers, false as soon as one side is NaN.
\<close>

datatype 'v number = NaN | Number 'v

fun isnan :: "'v number \<Rightarrow> bool" where
  "isnan NaN = True"
| "isnan (Number a) = False"

fun number_ge :: "'v::linorder number \<Rightarrow> 'v number \<Rightarrow> bool" where
  "number_ge (Number a) (Number b) = (b \<le> a)"
| "number_ge NaN y = False"
| "number_ge x NaN = False"

text \<open>
  The two managers that \<^verbatim>\<open>optimize\<close> hands on by reference: the duplicate manager it was
  given and the context manager of the object.
\<close>

type_synonym ('a, 'c, 'w, 'dm) managers = "'dm option \<times> ('a, 'c, 'w) ContextManager"

text \<open>
  The imported functions. Each yields its result, or the exception it raises, and the
  objects it was handed by reference as it leaves them: \<open>choose_optimizer\<close> the list of
  bounds, the other two the managers. \<open>anchor_points_get\<close> stands for building a generator
  and calling its \<^verbatim>\<open>get\<close>; its result is the anchor points in the order in which
  \<^verbatim>\<open>optimize\<close> iterates over them. The result of \<open>apply_optimizer\<close> is a point and the
  value of the objective there.
\<close>

record ('a, 'c, 'w, 'm, 'fn, 'opt, 'dm, 'p, 'v) collaborators =
  choose_optimizer :: "string \<Rightarrow> ('a \<times> 'a) list \<Rightarrow> (error + 'opt) \<times> ('a \<times> 'a) list"
  anchor_points_get ::
    "(('a, 'c, 'w) space, 'fn, 'm) generator \<Rightarrow> 'dm option \<Rightarrow>
     ('a, 'c, 'w) ContextManager \<Rightarrow> 'p option \<Rightarrow>
     (error + 'p list) \<times> ('a, 'c, 'w, 'dm) managers"
  apply_optimizer ::
    "('a, 'c, 'w, 'fn, 'opt, 'dm, 'p) apply_args \<Rightarrow>
     (error + 'p \<times> 'v number) \<times> ('a, 'c, 'w, 'dm) managers"

text \<open>
  The \<^verbatim>\<open>if\<close>/\<^verbatim>\<open>elif\<close> that binds the local variable \<^verbatim>\<open>anchor_points_generator\<close>: the
  result is \<open>Inr None\<close> when neither branch is taken and the variable stays unbound, and
  \<open>Inl AttributeError\<close> when the second branch reads a \<^verbatim>\<open>self.model\<close> that was never set.
\<close>

definition bind_generator ::
  "('a, 'c, 'w, 'm, 'fn, 'opt) AcquisitionOptimizer \<Rightarrow> 'fn option \<Rightarrow>
   error + (('a, 'c, 'w) space, 'fn, 'm) generator option"
where
  "bind_generator self f =
     (if type_anchor_points_logic self = max_objective_anchor_points_logic then
        Inr (Some (ObjectiveAnchorPointsGenerator (space self) random_design_type f))
      else if type_anchor_points_logic self = thompson_sampling_anchor_points_logic then
        (case model self of
           None \<Rightarrow> Inl AttributeError
         | Some m \<Rightarrow>
             Inr (Some (ThompsonSamplingAnchorPointsGenerator (space self) sobol_design_type m)))
      else Inr None)"

text \<open>
  The arguments of the call of \<^verbatim>\<open>apply_optimizer\<close> for the anchor \<open>a\<close>, the managers being
  the objects as they are when the call is made.
\<close>

definition call_args ::
  "('a, 'c, 'w) space \<Rightarrow> 'opt \<Rightarrow> 'fn option \<Rightarrow> 'fn option \<Rightarrow> 'fn option \<Rightarrow>
   ('a, 'c, 'w, 'dm) managers \<Rightarrow> 'p \<Rightarrow> ('a, 'c, 'w, 'fn, 'opt, 'dm, 'p) apply_args"
where
  "call_args sp opt f df f_df ms a =
     \<lparr> arg_optimizer = opt,
       arg_anchor = a,
       arg_f = f,
       arg_df = None,
       arg_f_df = f_df,
       arg_duplicate_manager = fst ms,
       arg_context_manager = snd ms,
       arg_space = sp \<rparr>"

text \<open>
  The list comprehension over the anchor points: one call per anchor, each on the managers
  as the call before left them, until a call raises.
\<close>

fun apply_each ::
  "('x \<Rightarrow> (error + 'r) \<times> 'ms) \<Rightarrow> ('ms \<Rightarrow> 'p \<Rightarrow> 'x) \<Rightarrow> 'ms \<Rightarrow> 'p list \<Rightarrow> (error + 'r list) \<times> 'ms"
where
  "apply_each run mk ms [] = (Inr [], ms)"
| "apply_each run mk ms (a # as) =
     (case run (mk ms a) of
        (Inl e, ms') \<Rightarrow> (Inl e, ms')
      | (Inr r, ms') \<Rightarrow>
          (case apply_each run mk ms' as of
             (Inl e, ms'') \<Rightarrow> (Inl e, ms'')
           | (Inr rs, ms'') \<Rightarrow> (Inr (r # rs), ms'')))"

text \<open>
  \<^verbatim>\<open>np.vstack(...).flatten()\<close> of the values, one scalar per anchor: \<^verbatim>\<open>vstack\<close> raises on
  an empty list.
\<close>

definition vstack_flatten :: "'v list \<Rightarrow> error + 'v list" where
  "vstack_flatten vs = (if vs = [] then Inl ValueError else Inr vs)"

text \<open>
  \<^verbatim>\<open>np.argmin\<close> on floating point numbers. A first entry that is NaN is the answer. The
  scan of the rest holds the best index and value so far and the index of the next entry:
  an entry takes over when it is not \<^verbatim>\<open>>=\<close> the best value, and the scan stops at the
  first NaN to take over.
\<close>

fun argmin_from :: "nat \<Rightarrow> 'v::linorder number \<Rightarrow> nat \<Rightarrow> 'v number list \<Rightarrow> nat" where
  "argmin_from best bv i [] = best"
| "argmin_from best bv i (v # vs) =
     (if \<not> number_ge v bv
      then (if isnan v then i else argmin_from i v (Suc i) vs)
      else argmin_from best bv (Suc i) vs)"

definition argmin :: "'v::linorder number list \<Rightarrow> error + nat" where
  "argmin vs =
     (case vs of
        [] \<Rightarrow> Inl ValueError
      | v # vs' \<Rightarrow> if isnan v then Inr 0 else Inr (argmin_from 0 v 1 vs'))"

text \<open>
  \<^verbatim>\<open>optimize\<close> yields the object and the duplicate manager as the call leaves them, also
  when it raises, and the outcome of the call. After a collaborator has run, the context
  manager of the object is the one the collaborator left. The line printed when the
  counter grows is not modelled. The body is in two parts: \<open>optimize_anchors\<close> is the body
  down to the list comprehension and yields \<^verbatim>\<open>optimized_points\<close>; \<open>optimize\<close> continues
  from \<^verbatim>\<open>np.argmin\<close>.
\<close>

definition optimize_anchors ::
  "('a, 'c, 'w, 'm, 'fn, 'opt, 'dm, 'p, 'v) collaborators \<Rightarrow>
   ('a, 'c, 'w, 'm, 'fn, 'opt) AcquisitionOptimizer \<Rightarrow>
   'fn option \<Rightarrow> 'fn option \<Rightarrow> 'fn option \<Rightarrow> 'dm option \<Rightarrow> 'p option \<Rightarrow>
   (('a, 'c, 'w, 'm, 'fn, 'opt) AcquisitionOptimizer \<times> 'dm option) \<times>
   (error + ('p \<times> 'v number) list)"
where
  "optimize_anchors E self0 f df f_df duplicate_manager x_opt =
     (let self1 = self0\<lparr> self_f := f, self_df := df, self_f_df := f_df \<rparr> in
      case choose_optimizer E (optimizer_name self1)
             (noncontext_bounds (context_manager self1)) of
        (chosen, bounds) \<Rightarrow>
          (let self1' = self1\<lparr> context_manager :=
                                 (context_manager self1)\<lparr> noncontext_bounds := bounds \<rparr> \<rparr> in
           case chosen of
             Inl e \<Rightarrow> ((self1', duplicate_manager), Inl e)
           | Inr opt \<Rightarrow>
               (let self2 = self1'\<lparr> optimizer := Some opt \<rparr> in
                case bind_generator self2 f of
                  Inl e \<Rightarrow> ((self2, duplicate_manager), Inl e)
                | Inr None \<Rightarrow> ((self2, duplicate_manager), Inl UnboundLocalError)
                | Inr (Some anchor_points_generator) \<Rightarrow>
                    (case anchor_points_get E anchor_points_generator duplicate_manager
                            (context_manager self2) x_opt of
                       (Inl e, dm1, cm1) \<Rightarrow> ((self2\<lparr> context_manager := cm1 \<rparr>, dm1), Inl e)
                     | (Inr anchor_points, dm1, cm1) \<Rightarrow>
                         (case apply_each (apply_optimizer E)
                                 (call_args (space self2) opt f df f_df) (dm1, cm1)
                                 anchor_points of
                            (optimized_points, dm2, cm2) \<Rightarrow>
                              ((self2\<lparr> context_manager := cm2 \<rparr>, dm2), optimized_points))))))"

definition optimize ::
  "('a, 'c, 'w, 'm, 'fn, 'opt, 'dm, 'p, 'v::linorder) collaborators \<Rightarrow>
   ('a, 'c, 'w, 'm, 'fn, 'opt) AcquisitionOptimizer \<Rightarrow>
   'fn option \<Rightarrow> 'fn option \<Rightarrow> 'fn option \<Rightarrow> 'dm option \<Rightarrow> 'p option \<Rightarrow>
   (('a, 'c, 'w, 'm, 'fn, 'opt) AcquisitionOptimizer \<times> 'dm option) \<times>
   (error + 'p \<times> 'v number)"
where
  "optimize E self0 f df f_df duplicate_manager x_opt =
     (case optimize_anchors E self0 f df f_df duplicate_manager x_opt of
        (objs, Inl e) \<Rightarrow> (objs, Inl e)
      | ((self2, dm), Inr optimized_points) \<Rightarrow>
          (case vstack_flatten (map snd optimized_points) of
             Inl e \<Rightarrow> ((self2, dm), Inl e)
           | Inr vals \<Rightarrow>
               (case argmin vals of
                  Inl e \<Rightarrow> ((self2, dm), Inl e)
                | Inr min_idx \<Rightarrow>
                    (let num_anchors = 5;
                         self3 =
                           (if min_idx \<ge> num_anchors
                            then self2\<lparr> spec_win_cnt := spec_win_cnt self2 + 1 \<rparr>
                            else self2)
                     in ((self3, dm), Inr (optimized_points ! min_idx))))))"

subsection \<open>Notions used to state the properties\<close>

text \<open>
  \<^verbatim>\<open><=\<close> and \<^verbatim>\<open><\<close> on floating point numbers, false as soon as one side is NaN.
\<close>

definition number_le :: "'v::linorder number \<Rightarrow> 'v number \<Rightarrow> bool" where
  "number_le x y = number_ge y x"

fun number_less :: "'v::linorder number \<Rightarrow> 'v number \<Rightarrow> bool" where
  "number_less (Number a) (Number b) = (a < b)"
| "number_less NaN y = False"
| "number_less x NaN = False"

text \<open>
  The calls of \<^verbatim>\<open>apply_optimizer\<close> that the list comprehension makes when none raises,
  one per anchor and in the order of the anchors, each with the managers as the call
  before left them.
\<close>

fun apply_calls :: "('x \<Rightarrow> 'r \<times> 'ms) \<Rightarrow> ('ms \<Rightarrow> 'p \<Rightarrow> 'x) \<Rightarrow> 'ms \<Rightarrow> 'p list \<Rightarrow> 'x list" where
  "apply_calls run mk ms [] = []"
| "apply_calls run mk ms (a # as) = mk ms a # apply_calls run mk (snd (run (mk ms a))) as"


text \<open>
  The data model's conditions on the context fields: every pinned model dimension is a
  dimension of the space and is pinned once, and each has its value.
\<close>

definition context_consistent :: "('a, 'c, 'w) ContextManager \<Rightarrow> bool" where
  "context_consistent cm \<longleftrightarrow>
     distinct (context_index cm) \<and>
     set (context_index cm) \<subseteq> set (all_index cm) \<and>
     length (context_value cm) = length (context_index cm)"

text \<open>
  The variables named by a context belong to the space when the space finds each of them
  and its model indices are dimensions of the space.
\<close>

definition context_in_space :: "('a, 'c, 'w) space \<Rightarrow> (string \<times> 'w) list \<Rightarrow> bool" where
  "context_in_space sp ctx \<longleftrightarrow>
     list_all (\<lambda>(n, v). case find_variable sp n of
                          Inl e \<Rightarrow> False
                        | Inr var \<Rightarrow>
                            list_all (\<lambda>i. 0 \<le> i \<and> i < int (model_dimensionality sp))
                              (index_in_model var)) ctx"

text \<open>
  The width of an input and its rows once \<^verbatim>\<open>np.atleast_2d\<close> has made it a matrix: a
  one-dimensional input is a single row.
\<close>

fun ncols :: "'a ndarray \<Rightarrow> nat" where
  "ncols (Array1 v) = length v"
| "ncols (Array2 k rows) = k"

fun array_rows :: "'a ndarray \<Rightarrow> 'a list list" where
  "array_rows (Array1 v) = [v]"
| "array_rows (Array2 k rows) = rows"

text \<open>
  The restriction of a full-width array to some of its columns, \<^verbatim>\<open>y[:, idx]\<close>. The module
  has no such operation; it is what the round trip of an expansion is stated with.
\<close>

fun take_columns :: "'a ndarray \<Rightarrow> int list \<Rightarrow> error + 'a ndarray" where
  "take_columns (Array1 a) idx = Inl IndexError"
| "take_columns (Array2 d rows) idx =
     (case comprehension (axis_index d) idx of
        Inl e \<Rightarrow> Inl e
      | Inr js \<Rightarrow> Inr (Array2 (length idx) (map (\<lambda>row. map (\<lambda>j. row ! j) js) rows)))"

subsection \<open>A small design space and collaborators to evaluate on\<close>

text \<open>
  Three model dimensions: a number \<open>x\<close> in dimension 0 and a two-valued category \<open>c\<close>,
  one-hot in dimensions 1 and 2. Two objective dimensions.
\<close>

definition var_x :: "(int, int) variable" where
  "var_x = \<lparr> index_in_model = [0], index_in_objective = [0],
             objective_to_model = (\<lambda>v. [v]) \<rparr>"

definition var_c :: "(int, int) variable" where
  "var_c = \<lparr> index_in_model = [1, 2], index_in_objective = [1],
             objective_to_model = (\<lambda>v. if v = 0 then [1, 0] else [0, 1]) \<rparr>"

definition space3 :: "(int, string, int) space" where
  "space3 = \<lparr> model_dimensionality = 3,
              config_space_expanded = [''x'', ''c''],
              get_bounds = [(0, 10), (0, 1), (0, 1)],
              find_variable = (\<lambda>n. if n = ''x'' then Inr var_x
                                    else if n = ''c'' then Inr var_c
                                    else Inl (CollaboratorError ''InvalidVariableNameError'')) \<rparr>"

text \<open>The manager that the constructor builds when the context pins \<open>c\<close> to its second value.\<close>

definition cm_c :: "(int, string, int) ContextManager" where
  "cm_c = \<lparr> ContextManager.space = space3, all_index = [0, 1, 2], all_index_obj = [0, 1],
            context_index = [1, 2], context_value = [0, 1], context_index_obj = [1],
            nocontext_index_obj = [0], noncontext_bounds = [(0, 10)],
            noncontext_index = [0] \<rparr>"

text \<open>
  An objective on that space: the squared distance from the point \<open>(3, 0, 1)\<close>, and NaN
  left of the origin, where it is not defined.
\<close>

definition sq_dist :: "int list \<Rightarrow> int" where
  "sq_dist p = sum_list (map2 (\<lambda>a b. (a - b) * (a - b)) p [3, 0, 1])"

definition objective :: "int list \<Rightarrow> int number" where
  "objective p = (case p of [] \<Rightarrow> NaN | x # xs \<Rightarrow> if x < 0 then NaN else Number (sq_dist p))"

text \<open>
  Modelled from the spec: collaborators over that space that leave the objects they are
  handed alone. \<^verbatim>\<open>choose\<close> maps a name in lbfgs, DIRECT, CMA to an optimizer (here the
  name itself) and fails on any other name with \<^verbatim>\<open>UnsupportedOptimizerError\<close>; the
  generator hands out the given anchors followed by \<open>x_opt\<close> when there is one; the local
  optimizer stays at the anchor and reports the objective there.
\<close>

definition collab ::
  "int list list \<Rightarrow>
   (int, string, int, unit, string, string, unit, int list, int) collaborators"
where
  "collab anchors =
     \<lparr> choose_optimizer =
         (\<lambda>n b. (if n \<in> {''lbfgs'', ''DIRECT'', ''CMA''} then Inr n
                 else Inl (CollaboratorError ''UnsupportedOptimizerError''), b)),
       anchor_points_get =
         (\<lambda>g dm cm x_opt.
            (Inr (anchors @ (case x_opt of None \<Rightarrow> [] | Some p \<Rightarrow> [p])), dm, cm)),
       apply_optimizer =
         (\<lambda>c. (Inr (arg_anchor c, objective (arg_anchor c)),
               arg_duplicate_manager c, arg_context_manager c)) \<rparr>"

text \<open>
  The same collaborators, except that the local optimizer empties the bounds of the context
  manager it is handed.
\<close>

definition collab_writing ::
  "int list list \<Rightarrow>
   (int, string, int, unit, string, string, unit, int list, int) collaborators"
where
  "collab_writing anchors =
     (collab anchors)
       \<lparr> apply_optimizer :=
           (\<lambda>c. (Inr (arg_anchor c, objective (arg_anchor c)),
                 arg_duplicate_manager c,
                 (arg_context_manager c)\<lparr> noncontext_bounds := [] \<rparr>)) \<rparr>"

text \<open>The object that the constructor builds on that space for a given optimizer and logic.\<close>

definition ao_with ::
  "string \<Rightarrow> string \<Rightarrow> (int, string, int, unit, string, string) AcquisitionOptimizer"
where
  "ao_with optimizer_nm logic =
     \<lparr> space = space3,
       optimizer_name = optimizer_nm,
       kwargs = \<lparr> kw_model = None, kw_type_anchor_points_logic = Some logic \<rparr>,
       spec_win_cnt = 0,
       model = None,
       type_anchor_points_logic = logic,
       context_manager = init_fields space3,
       self_f = None,
       self_df = None,
       self_f_df = None,
       optimizer = None \<rparr>"

section \<open>Properties\<close>

subsection \<open>List comprehensions and \<^verbatim>\<open>np.argmin\<close>\<close>

lemma comprehension_Inr:
  "comprehension g xs = Inr ys \<Longrightarrow>
   length ys = length xs \<and> (\<forall>j<length xs. g (xs ! j) = Inr (ys ! j))"
proof (induction xs arbitrary: ys)
  case Nil
  then show ?case by simp
next
  case (Cons a as)
  then obtain b bs where b: "g a = Inr b" and bs: "comprehension g as = Inr bs"
    and ys: "ys = b # bs"
    by (auto split: sum.splits)
  from Cons.IH [OF bs] have "length bs = length as"
    and "\<forall>j<length as. g (as ! j) = Inr (bs ! j)" by simp_all
  with b ys show ?case by (auto simp: nth_Cons split: nat.splits)
qed

lemma argmin_from_numbers:
  assumes "best < length ps" "ps ! best = b"
    and "\<forall>j<length ps. b \<le> ps ! j"
    and "\<forall>j<best. b < ps ! j"
  shows "argmin_from best (Number b) (length ps) (map Number ws) < length (ps @ ws) \<and>
         (\<forall>j<length (ps @ ws).
            (ps @ ws) ! argmin_from best (Number b) (length ps) (map Number ws) \<le> (ps @ ws) ! j) \<and>
         (\<forall>j<argmin_from best (Number b) (length ps) (map Number ws).
            (ps @ ws) ! argmin_from best (Number b) (length ps) (map Number ws) < (ps @ ws) ! j)"
  using assms
proof (induction ws arbitrary: ps best b)
  case Nil
  then show ?case by simp
next
  case (Cons w ws)
  let ?ps = "ps @ [w]"
  show ?case
  proof (cases "w < b")
    case True
    have a: "length ps < length ?ps" "?ps ! length ps = w" by simp_all
    have b: "\<forall>j<length ?ps. w \<le> ?ps ! j"
      using Cons.prems(3) True by (auto simp: nth_append less_Suc_eq)
    have c: "\<forall>j<length ps. w < ?ps ! j"
      using Cons.prems(3) True by (auto simp: nth_append)
    from Cons.IH [of "length ps" ?ps w, OF a b c] True show ?thesis by (simp add: not_le)
  next
    case False
    have a: "best < length ?ps" "?ps ! best = b"
      using Cons.prems(1,2) by (simp_all add: nth_append)
    have b: "\<forall>j<length ?ps. b \<le> ?ps ! j"
      using Cons.prems(3) False by (auto simp: nth_append less_Suc_eq)
    have c: "\<forall>j<best. b < ?ps ! j"
      using Cons.prems(1,4) by (auto simp: nth_append)
    from Cons.IH [of best ?ps b, OF a b c] False show ?thesis by (simp add: not_less)
  qed
qed

lemma argmin_numbers:
  assumes "ws \<noteq> []"
  shows "\<exists>m. argmin (map Number ws) = Inr m \<and> m < length ws \<and>
             (\<forall>j<length ws. ws ! m \<le> ws ! j) \<and> (\<forall>j<m. ws ! m < ws ! j)"
proof -
  from assms obtain w ws' where ws: "ws = w # ws'" by (cases ws) auto
  have "argmin_from 0 (Number w) (length [w]) (map Number ws') < length ([w] @ ws') \<and>
         (\<forall>j<length ([w] @ ws').
            ([w] @ ws') ! argmin_from 0 (Number w) (length [w]) (map Number ws') \<le> ([w] @ ws') ! j) \<and>
         (\<forall>j<argmin_from 0 (Number w) (length [w]) (map Number ws').
            ([w] @ ws') ! argmin_from 0 (Number w) (length [w]) (map Number ws') < ([w] @ ws') ! j)"
    by (rule argmin_from_numbers) simp_all
  then show ?thesis by (simp add: ws argmin_def)
qed

lemma number_ge_NaN [simp]: "number_ge x NaN = False"
  by (cases x) simp_all

lemma isnan_iff: "isnan v \<longleftrightarrow> v = NaN"
  by (cases v) simp_all

lemma argmin_from_first_nan:
  "\<forall>v \<in> set as. \<not> isnan v \<Longrightarrow> \<not> isnan bv \<Longrightarrow>
   argmin_from best bv i (as @ NaN # bs) = i + length as"
proof (induction as arbitrary: best bv i)
  case Nil
  then show ?case by simp
next
  case (Cons a as)
  then show ?case by simp
qed

lemma argmin_first_nan:
  assumes "\<forall>v \<in> set as. \<not> isnan v"
  shows "argmin (as @ NaN # bs) = Inr (length as)"
proof (cases as)
  case Nil
  then show ?thesis by (simp add: argmin_def)
next
  case (Cons a as')
  with assms argmin_from_first_nan [of as' a 0 1 bs] show ?thesis
    by (simp add: argmin_def)
qed

lemma numbers_of:
  "\<forall>v \<in> set vs. \<not> isnan v \<Longrightarrow> \<exists>ws. vs = map Number ws"
proof (induction vs)
  case Nil
  then show ?case by simp
next
  case (Cons v vs)
  then obtain ws where "vs = map Number ws" by auto
  moreover from Cons.prems obtain w where "v = Number w" by (cases v) auto
  ultimately have "v # vs = map Number (w # ws)" by simp
  then show ?case by (rule exI)
qed

lemma first_nan:
  "\<exists>v \<in> set vs. isnan v \<Longrightarrow>
   \<exists>as bs. vs = as @ NaN # bs \<and> (\<forall>v \<in> set as. \<not> isnan v)"
proof -
  assume "\<exists>v \<in> set vs. isnan v"
  then have "NaN \<in> set vs" by (auto simp: isnan_iff)
  from split_list_first [OF this] obtain as bs where "vs = as @ NaN # bs" "NaN \<notin> set as"
    by blast
  then show ?thesis by (auto simp: isnan_iff)
qed

text \<open>
  What \<^verbatim>\<open>np.argmin\<close> returns on a non-empty array: the first index of the least entry
  when no entry is NaN, the index of the first NaN otherwise.
\<close>

lemma argmin_result:
  assumes "vs \<noteq> []"
  shows "\<exists>m. argmin vs = Inr m \<and> m < length vs \<and>
           ((\<forall>v \<in> set vs. \<not> isnan v) \<longrightarrow>
              (\<forall>j<length vs. number_le (vs ! m) (vs ! j)) \<and>
              (\<forall>j<m. number_less (vs ! m) (vs ! j))) \<and>
           ((\<exists>v \<in> set vs. isnan v) \<longrightarrow>
              isnan (vs ! m) \<and> (\<forall>j<m. \<not> isnan (vs ! j)))"
proof (cases "\<exists>v \<in> set vs. isnan v")
  case True
  from first_nan [OF True] obtain as bs where
    vs: "vs = as @ NaN # bs" and as: "\<forall>v \<in> set as. \<not> isnan v" by blast
  have "argmin vs = Inr (length as)" unfolding vs by (rule argmin_first_nan [OF as])
  moreover have "length as < length vs" "isnan (vs ! length as)" by (simp_all add: vs)
  moreover have "\<forall>j<length as. \<not> isnan (vs ! j)" using as by (simp add: vs nth_append)
  ultimately show ?thesis using True by blast
next
  case False
  then have nn: "\<forall>v \<in> set vs. \<not> isnan v" by blast
  from numbers_of [OF nn] obtain ws where vs: "vs = map Number ws" by blast
  with assms have "ws \<noteq> []" by auto
  from argmin_numbers [OF this] obtain m where m: "argmin (map Number ws) = Inr m"
    "m < length ws" "\<forall>j<length ws. ws ! m \<le> ws ! j" "\<forall>j<m. ws ! m < ws ! j" by blast
  have "\<forall>j<length vs. number_le (vs ! m) (vs ! j)"
    using m(2,3) by (simp add: vs number_le_def)
  moreover have "\<forall>j<m. number_less (vs ! m) (vs ! j)"
    using m(2,4) by (simp add: vs)
  ultimately show ?thesis using m(1,2) False by (auto simp: vs)
qed

subsection \<open>The two parts of \<^verbatim>\<open>optimize\<close>\<close>

lemma apply_each_calls:
  "fst (apply_each run mk ms as) = comprehension (\<lambda>x. fst (run x)) (apply_calls run mk ms as)"
proof (induction as arbitrary: ms)
  case Nil
  then show ?case by simp
next
  case (Cons a as)
  show ?case
  proof (cases "run (mk ms a)")
    case (Pair r ms')
    with Cons.IH [of ms'] show ?thesis
      by (cases r; cases "apply_each run mk ms' as") (auto split: sum.splits)
  qed
qed

lemma length_apply_calls [simp]: "length (apply_calls run mk ms as) = length as"
  by (induction as arbitrary: ms) simp_all

lemma map_apply_calls:
  "(\<And>ms a. h (mk ms a) = k a) \<Longrightarrow> map h (apply_calls run mk ms as) = map k as"
  by (induction as arbitrary: ms) simp_all


lemma bind_generator_fields [simp]:
  "bind_generator (s\<lparr> self_f := a, self_df := b, self_f_df := c, context_manager := cm,
                      optimizer := d \<rparr>) f =
   bind_generator s f"
  by (simp add: bind_generator_def split: option.splits)

lemma optimize_anchors_frame:
  "spec_win_cnt (fst (fst (optimize_anchors E s f df f_df dm x_opt))) = spec_win_cnt s \<and>
   type_anchor_points_logic (fst (fst (optimize_anchors E s f df f_df dm x_opt))) =
     type_anchor_points_logic s"
  by (simp add: optimize_anchors_def Let_def split: prod.splits sum.splits option.splits)

lemma optimize_anchors_reached:
  assumes "choose_optimizer E (optimizer_name s) (noncontext_bounds (context_manager s)) =
             (Inr opt, b)"
    and "bind_generator s f = Inr (Some g)"
    and "anchor_points_get E g dm ((context_manager s)\<lparr> noncontext_bounds := b \<rparr>) x_opt =
           (Inr anchors, ms)"
  shows "snd (optimize_anchors E s f df f_df dm x_opt) =
         comprehension (\<lambda>c. fst (apply_optimizer E c))
           (apply_calls (apply_optimizer E) (call_args (space s) opt f df f_df) ms anchors)"
proof -
  obtain dm1 cm1 where ms: "ms = (dm1, cm1)" by (cases ms)
  obtain r ms2 where run: "apply_each (apply_optimizer E) (call_args (space s) opt f df f_df)
      (dm1, cm1) anchors = (r, ms2)"
    by (cases "apply_each (apply_optimizer E) (call_args (space s) opt f df f_df)
      (dm1, cm1) anchors")
  with apply_each_calls [of "apply_optimizer E" "call_args (space s) opt f df f_df" "(dm1, cm1)" anchors]
  have "r = comprehension (\<lambda>c. fst (apply_optimizer E c))
           (apply_calls (apply_optimizer E) (call_args (space s) opt f df f_df) (dm1, cm1) anchors)"
    by simp
  with assms ms run show ?thesis
    by (simp add: optimize_anchors_def Let_def split: prod.splits)
qed

lemma optimize_anchors_Inr:
  assumes "snd (optimize_anchors E s f df f_df dm x_opt) = Inr ops"
  shows "\<exists>opt b g anchor_points ms.
           choose_optimizer E (optimizer_name s) (noncontext_bounds (context_manager s)) =
             (Inr opt, b) \<and>
           bind_generator s f = Inr (Some g) \<and>
           anchor_points_get E g dm ((context_manager s)\<lparr> noncontext_bounds := b \<rparr>) x_opt =
             (Inr anchor_points, ms) \<and>
           comprehension (\<lambda>c. fst (apply_optimizer E c))
             (apply_calls (apply_optimizer E) (call_args (space s) opt f df f_df) ms
                anchor_points) = Inr ops"
proof -
  obtain chosen b where ch: "choose_optimizer E (optimizer_name s)
      (noncontext_bounds (context_manager s)) = (chosen, b)"
    by (cases "choose_optimizer E (optimizer_name s) (noncontext_bounds (context_manager s))")
  from assms ch obtain opt where opt: "chosen = Inr opt"
    by (cases chosen) (auto simp: optimize_anchors_def Let_def)
  from assms ch opt obtain g where g: "bind_generator s f = Inr (Some g)"
    by (cases "bind_generator s f")
       (auto simp: optimize_anchors_def Let_def split: option.splits)
  obtain got ms where get: "anchor_points_get E g dm
      ((context_manager s)\<lparr> noncontext_bounds := b \<rparr>) x_opt = (got, ms)"
    by (cases "anchor_points_get E g dm ((context_manager s)\<lparr> noncontext_bounds := b \<rparr>) x_opt")
  from assms ch opt g get obtain anchors where anchors: "got = Inr anchors"
    by (cases got) (auto simp: optimize_anchors_def Let_def split: prod.splits)
  from optimize_anchors_reached [OF ch [unfolded opt] g get [unfolded anchors], of df f_df] assms
  have "comprehension (\<lambda>c. fst (apply_optimizer E c))
             (apply_calls (apply_optimizer E) (call_args (space s) opt f df f_df) ms anchors) =
        Inr ops" by simp
  with ch opt g get anchors show ?thesis by blast
qed


lemma all_apply_calls:
  "(\<And>ms a. P (mk ms a)) \<Longrightarrow> \<forall>c \<in> set (apply_calls run mk ms as). P c"
  by (induction as arbitrary: ms) simp_all

lemma nth_apply_calls:
  assumes "\<And>ms a. h (mk ms a) = k a" and "j < length as"
  shows "h (apply_calls run mk ms as ! j) = k (as ! j)"
proof -
  have "map h (apply_calls run mk ms as) ! j = map k as ! j"
    using map_apply_calls [of h mk k run ms as] assms(1) by simp
  with assms(2) show ?thesis by simp
qed

lemma optimize_select:
  assumes "snd (optimize_anchors E s f df f_df dm x_opt) = Inr ops" and "ops \<noteq> []"
  shows "\<exists>m. argmin (map snd ops) = Inr m \<and> m < length ops \<and>
             ((\<forall>p \<in> set ops. \<not> isnan (snd p)) \<longrightarrow>
                (\<forall>j<length ops. number_le (snd (ops ! m)) (snd (ops ! j))) \<and>
                (\<forall>j<m. number_less (snd (ops ! m)) (snd (ops ! j)))) \<and>
             ((\<exists>p \<in> set ops. isnan (snd p)) \<longrightarrow>
                isnan (snd (ops ! m)) \<and> (\<forall>j<m. \<not> isnan (snd (ops ! j)))) \<and>
             snd (optimize E s f df f_df dm x_opt) = Inr (ops ! m) \<and>
             spec_win_cnt (fst (fst (optimize E s f df f_df dm x_opt))) =
               (if 5 \<le> m then spec_win_cnt s + 1 else spec_win_cnt s)"
proof -
  from assms(2) have ne: "map snd ops \<noteq> []" by simp
  from argmin_result [OF ne] obtain m where m: "argmin (map snd ops) = Inr m"
    "m < length (map snd ops)"
    "(\<forall>v \<in> set (map snd ops). \<not> isnan v) \<longrightarrow>
       (\<forall>j<length (map snd ops). number_le (map snd ops ! m) (map snd ops ! j)) \<and>
       (\<forall>j<m. number_less (map snd ops ! m) (map snd ops ! j))"
    "(\<exists>v \<in> set (map snd ops). isnan v) \<longrightarrow>
       isnan (map snd ops ! m) \<and> (\<forall>j<m. \<not> isnan (map snd ops ! j))"
    by blast
  from m(2) have len: "m < length ops" by simp
  have a: "(\<forall>p \<in> set ops. \<not> isnan (snd p)) \<longrightarrow>
                (\<forall>j<length ops. number_le (snd (ops ! m)) (snd (ops ! j))) \<and>
                (\<forall>j<m. number_less (snd (ops ! m)) (snd (ops ! j)))"
    using len m(3) by simp
  have b: "(\<exists>p \<in> set ops. isnan (snd p)) \<longrightarrow>
                isnan (snd (ops ! m)) \<and> (\<forall>j<m. \<not> isnan (snd (ops ! j)))"
    using len m(4) by simp
  obtain s2 dm2 where s2: "optimize_anchors E s f df f_df dm x_opt = ((s2, dm2), Inr ops)"
    using assms(1) by (cases "optimize_anchors E s f df f_df dm x_opt") auto
  have cnt: "spec_win_cnt s2 = spec_win_cnt s"
    using optimize_anchors_frame [of E s f df f_df dm x_opt] s2 by simp
  have r: "snd (optimize E s f df f_df dm x_opt) = Inr (ops ! m)"
    using s2 m(1) assms(2) by (simp add: optimize_def vstack_flatten_def Let_def)
  have c: "spec_win_cnt (fst (fst (optimize E s f df f_df dm x_opt))) =
               (if 5 \<le> m then spec_win_cnt s + 1 else spec_win_cnt s)"
    using s2 m(1) assms(2) cnt by (simp add: optimize_def vstack_flatten_def Let_def)
  from m(1) len a b r c show ?thesis by blast
qed

lemma optimize_returns:
  assumes "snd (optimize E s f df f_df dm x_opt) = Inr r"
  shows "\<exists>ops. snd (optimize_anchors E s f df f_df dm x_opt) = Inr ops \<and> ops \<noteq> []"
  using assms
  by (auto simp: optimize_def vstack_flatten_def Let_def split: prod.splits sum.splits if_splits)

lemma optimize_frame:
  "type_anchor_points_logic (fst (fst (optimize E s f df f_df dm x_opt))) =
     type_anchor_points_logic s \<and>
   context_manager (fst (fst (optimize E s f df f_df dm x_opt))) =
     context_manager (fst (fst (optimize_anchors E s f df f_df dm x_opt))) \<and>
   snd (fst (optimize E s f df f_df dm x_opt)) =
     snd (fst (optimize_anchors E s f df f_df dm x_opt))"
proof (cases "optimize_anchors E s f df f_df dm x_opt")
  case (Pair objs r)
  obtain s2 dm2 where objs: "objs = (s2, dm2)" by (cases objs)
  from optimize_anchors_frame [of E s f df f_df dm x_opt] Pair objs
  have "type_anchor_points_logic s2 = type_anchor_points_logic s" by simp
  with Pair objs show ?thesis
    by (simp add: optimize_def Let_def split: sum.splits)
qed

lemma optimize_unbound:
  assumes "type_anchor_points_logic s \<noteq> max_objective_anchor_points_logic"
    and "type_anchor_points_logic s \<noteq> thompson_sampling_anchor_points_logic"
  shows "snd (optimize E s f df f_df dm x_opt) =
     (case fst (choose_optimizer E (optimizer_name s) (noncontext_bounds (context_manager s))) of
        Inl e \<Rightarrow> Inl e | Inr opt \<Rightarrow> Inl UnboundLocalError)"
  using assms
  by (simp add: optimize_def optimize_anchors_def bind_generator_def Let_def
      split: sum.splits prod.splits)

lemmas run_optimize =
  collab_def ao_with_def optimize_def optimize_anchors_def bind_generator_def
  call_args_def objective_def sq_dist_def vstack_flatten_def argmin_def init_fields_def space3_def
  max_objective_anchor_points_logic_def thompson_sampling_anchor_points_logic_def
  random_design_type_def sobol_design_type_def Let_def

subsection \<open>Selection of the best pair\<close>

text \<open>
  C1, as the module has it. When the calls of \<^verbatim>\<open>apply_optimizer\<close> yield a non-empty list
  of pairs, \<^verbatim>\<open>optimize\<close> returns one of them. If no value of the list is NaN, the value
  returned is at most the value of every pair of the list and strictly below the value of
  every pair that comes earlier. If some value is NaN, the pair returned is the first one
  whose value is NaN. The pairs stand in the order of the anchor points, the \<open>j\<close>-th pair
  being what \<^verbatim>\<open>apply_optimizer\<close> returned for the \<open>j\<close>-th anchor, so among the pairs of
  least value the one of the earliest anchor is returned.
\<close>

theorem optimize_returns_first_minimum_or_first_nan:
  assumes "snd (optimize_anchors E s f df f_df dm x_opt) = Inr optimized_points"
    and "optimized_points \<noteq> []"
  shows "(\<exists>min_idx<length optimized_points.
            snd (optimize E s f df f_df dm x_opt) = Inr (optimized_points ! min_idx) \<and>
            ((\<forall>p \<in> set optimized_points. \<not> isnan (snd p)) \<longrightarrow>
               (\<forall>j<length optimized_points.
                  number_le (snd (optimized_points ! min_idx)) (snd (optimized_points ! j))) \<and>
               (\<forall>j<min_idx.
                  number_less (snd (optimized_points ! min_idx)) (snd (optimized_points ! j)))) \<and>
            ((\<exists>p \<in> set optimized_points. isnan (snd p)) \<longrightarrow>
               isnan (snd (optimized_points ! min_idx)) \<and>
               (\<forall>j<min_idx. \<not> isnan (snd (optimized_points ! j))))) \<and>
         (\<exists>opt b g anchor_points ms.
            anchor_points_get E g dm ((context_manager s)\<lparr> noncontext_bounds := b \<rparr>) x_opt =
              (Inr anchor_points, ms) \<and>
            length optimized_points = length anchor_points \<and>
            (\<forall>j<length anchor_points.
               arg_anchor (apply_calls (apply_optimizer E) (call_args (space s) opt f df f_df) ms
                             anchor_points ! j) = anchor_points ! j \<and>
               fst (apply_optimizer E
                      (apply_calls (apply_optimizer E) (call_args (space s) opt f df f_df) ms
                         anchor_points ! j)) = Inr (optimized_points ! j)))"
proof -
  from optimize_anchors_Inr [OF assms(1)] obtain opt b g anchor_points ms where
    get: "anchor_points_get E g dm ((context_manager s)\<lparr> noncontext_bounds := b \<rparr>) x_opt =
            (Inr anchor_points, ms)" and
    run: "comprehension (\<lambda>c. fst (apply_optimizer E c))
            (apply_calls (apply_optimizer E) (call_args (space s) opt f df f_df) ms
               anchor_points) = Inr optimized_points"
    by blast
  let ?calls = "apply_calls (apply_optimizer E) (call_args (space s) opt f df f_df) ms
                  anchor_points"
  from comprehension_Inr [OF run]
  have "length optimized_points = length anchor_points"
    and "\<forall>j<length anchor_points. fst (apply_optimizer E (?calls ! j)) = Inr (optimized_points ! j)"
    by simp_all
  moreover have "\<forall>j<length anchor_points. arg_anchor (?calls ! j) = anchor_points ! j"
    by (simp add: nth_apply_calls [where k = "\<lambda>a. a"] call_args_def)
  ultimately have "\<exists>opt b g anchor_points ms.
            anchor_points_get E g dm ((context_manager s)\<lparr> noncontext_bounds := b \<rparr>) x_opt =
              (Inr anchor_points, ms) \<and>
            length optimized_points = length anchor_points \<and>
            (\<forall>j<length anchor_points.
               arg_anchor (apply_calls (apply_optimizer E) (call_args (space s) opt f df f_df) ms
                             anchor_points ! j) = anchor_points ! j \<and>
               fst (apply_optimizer E
                      (apply_calls (apply_optimizer E) (call_args (space s) opt f df f_df) ms
                         anchor_points ! j)) = Inr (optimized_points ! j))"
    using get by blast
  with optimize_select [OF assms] show ?thesis by blast
qed

theorem optimize_returns_first_minimum_or_first_nan_witness:
  "snd (optimize_anchors (collab [[0, 0, 0], [2, 0, 1], [4, 0, 1]])
        (ao_with ''lbfgs'' ''max_objective'') (Some ''f'') (Some ''df'') None None None) =
     Inr [([0, 0, 0], Number 10), ([2, 0, 1], Number 1), ([4, 0, 1], Number 1)] \<and>
   [([0, 0, 0], Number 10), ([2, 0, 1], Number 1), ([4, 0, 1], Number 1)] \<noteq>
     ([] :: (int list \<times> int number) list) \<and>
   snd (optimize (collab [[0, 0, 0], [2, 0, 1], [4, 0, 1]])
         (ao_with ''lbfgs'' ''max_objective'') (Some ''f'') (Some ''df'') None None None) =
           Inr ([2, 0, 1], Number 1)"
proof -
  have h: "snd (optimize_anchors (collab [[0, 0, 0], [2, 0, 1], [4, 0, 1]])
        (ao_with ''lbfgs'' ''max_objective'') (Some ''f'') (Some ''df'') None None None) =
     Inr [([0, 0, 0], Number 10), ([2, 0, 1], Number 1), ([4, 0, 1], Number 1)]"
    by (simp add: run_optimize)
  have ne: "[([0, 0, 0], Number 10), ([2, 0, 1], Number 1), ([4, 0, 1], Number 1)] \<noteq>
     ([] :: (int list \<times> int number) list)"
    by simp
  have r: "snd (optimize (collab [[0, 0, 0], [2, 0, 1], [4, 0, 1]])
        (ao_with ''lbfgs'' ''max_objective'') (Some ''f'') (Some ''df'') None None None) =
          Inr ([2, 0, 1], Number 1)"
    by (simp add: run_optimize)
  show ?thesis using optimize_returns_first_minimum_or_first_nan [OF h ne] h r by simp
qed

text \<open>
  C1 as stated fails: when the objective is NaN at the third anchor and 0 at the fourth,
  the pair returned is the one with NaN, and NaN is not at most 0.
\<close>

theorem nan_value_is_returned:
  "snd (optimize_anchors (collab [[0, 0, 0], [2, 0, 1], [-1, 0, 0], [3, 0, 1]])
        (ao_with ''lbfgs'' ''max_objective'') (Some ''f'') None None None None) =
     Inr [([0, 0, 0], Number 10), ([2, 0, 1], Number 1), ([-1, 0, 0], NaN),
          ([3, 0, 1], Number 0)] \<and>
   snd (optimize (collab [[0, 0, 0], [2, 0, 1], [-1, 0, 0], [3, 0, 1]])
         (ao_with ''lbfgs'' ''max_objective'') (Some ''f'') None None None None) =
           Inr ([-1, 0, 0], NaN) \<and>
   \<not> number_le NaN (Number (0 :: int))"
  by (simp add: run_optimize number_le_def)

text \<open>
  C2, as the module has it. When the generator hands out no anchor point, the list of
  optimized points is empty and \<^verbatim>\<open>optimize\<close> fails at \<^verbatim>\<open>np.vstack\<close>, which raises
  \<^verbatim>\<open>ValueError\<close> on an empty list. The module defines and raises no error of its own for
  this case.
\<close>

theorem empty_anchors_ValueError:
  assumes "choose_optimizer E (optimizer_name s) (noncontext_bounds (context_manager s)) =
             (Inr opt, b)"
    and "bind_generator s f = Inr (Some g)"
    and "anchor_points_get E g dm ((context_manager s)\<lparr> noncontext_bounds := b \<rparr>) x_opt =
           (Inr [], ms)"
  shows "snd (optimize E s f df f_df dm x_opt) = Inl ValueError"
proof -
  have "snd (optimize_anchors E s f df f_df dm x_opt) = Inr []"
    using optimize_anchors_reached [OF assms] by simp
  then show ?thesis
    by (cases "optimize_anchors E s f df f_df dm x_opt")
       (auto simp: optimize_def vstack_flatten_def)
qed

theorem empty_anchors_ValueError_witness:
  "choose_optimizer (collab []) (optimizer_name (ao_with ''lbfgs'' ''max_objective''))
     (noncontext_bounds (context_manager (ao_with ''lbfgs'' ''max_objective''))) =
     (Inr ''lbfgs'', [(0, 10), (0, 1), (0, 1)]) \<and>
   bind_generator
         (ao_with ''lbfgs'' ''max_objective'') (Some ''f'') =
           Inr (Some (ObjectiveAnchorPointsGenerator space3 ''random'' (Some ''f''))) \<and>
   anchor_points_get (collab []) (ObjectiveAnchorPointsGenerator space3 ''random'' (Some ''f'')) None
     ((context_manager (ao_with ''lbfgs'' ''max_objective''))\<lparr> noncontext_bounds := [(0, 10), (0, 1), (0, 1)] \<rparr>) None =
     (Inr [], None, init_fields space3) \<and>
   snd (optimize (collab [])
         (ao_with ''lbfgs'' ''max_objective'') (Some ''f'') None None None None) = Inl ValueError"
proof -
  have a: "choose_optimizer (collab []) (optimizer_name (ao_with ''lbfgs'' ''max_objective''))
     (noncontext_bounds (context_manager (ao_with ''lbfgs'' ''max_objective''))) =
     (Inr ''lbfgs'', [(0, 10), (0, 1), (0, 1)])"
    by (simp add: run_optimize)
  have b: "bind_generator
        (ao_with ''lbfgs'' ''max_objective'') (Some ''f'') =
          Inr (Some (ObjectiveAnchorPointsGenerator space3 ''random'' (Some ''f'')))"
    by (simp add: run_optimize)
  have c: "anchor_points_get (collab []) (ObjectiveAnchorPointsGenerator space3 ''random'' (Some ''f'')) None
     ((context_manager (ao_with ''lbfgs'' ''max_objective''))\<lparr> noncontext_bounds := [(0, 10), (0, 1), (0, 1)] \<rparr>) None =
     (Inr [], None, init_fields space3)"
    by (simp add: run_optimize)
  show ?thesis using empty_anchors_ValueError [OF a b c] a b c by simp
qed

text \<open>
  C2 as stated fails: with no anchor point the exception is \<^verbatim>\<open>ValueError\<close>, not one
  named \<^verbatim>\<open>NoAnchorPointsError\<close>.
\<close>

theorem empty_anchors_not_NoAnchorPointsError:
  "snd (optimize (collab [])
        (ao_with ''lbfgs'' ''max_objective'') (Some ''f'') None None None None) =
          Inl ValueError \<and>
   error_name ValueError \<noteq> ''NoAnchorPointsError''"
  by (simp add: run_optimize)

text \<open>
  C3, as the module has it. Every call of \<^verbatim>\<open>apply_optimizer\<close> is made with the \<open>f\<close> and
  the \<open>f_df\<close> given to \<^verbatim>\<open>optimize\<close> and with \<^verbatim>\<open>df=None\<close>, whatever \<open>df\<close> was given: there
  is one call per anchor, in the order of the anchors, and the outcome of the first part of
  \<^verbatim>\<open>optimize\<close> is the outcome of these calls.
\<close>

theorem apply_optimizer_arguments:
  assumes "choose_optimizer E (optimizer_name s) (noncontext_bounds (context_manager s)) =
             (Inr opt, b)"
    and "bind_generator s f = Inr (Some g)"
    and "anchor_points_get E g dm ((context_manager s)\<lparr> noncontext_bounds := b \<rparr>) x_opt =
           (Inr anchors, ms)"
  shows "snd (optimize_anchors E s f df f_df dm x_opt) =
           comprehension (\<lambda>c. fst (apply_optimizer E c))
             (apply_calls (apply_optimizer E) (call_args (space s) opt f df f_df) ms anchors) \<and>
         map arg_anchor
           (apply_calls (apply_optimizer E) (call_args (space s) opt f df f_df) ms anchors) =
           anchors \<and>
         (\<forall>c \<in> set (apply_calls (apply_optimizer E) (call_args (space s) opt f df f_df) ms
                       anchors).
            arg_f c = f \<and> arg_df c = None \<and> arg_f_df c = f_df)"
proof -
  let ?calls = "apply_calls (apply_optimizer E) (call_args (space s) opt f df f_df) ms anchors"
  have "map arg_anchor ?calls = map (\<lambda>a. a) anchors"
    by (rule map_apply_calls) (simp add: call_args_def)
  then have anchors: "map arg_anchor ?calls = anchors" by simp
  have args: "\<forall>c \<in> set ?calls. arg_f c = f \<and> arg_df c = None \<and> arg_f_df c = f_df"
    by (rule all_apply_calls) (simp add: call_args_def)
  from optimize_anchors_reached [OF assms] anchors args show ?thesis by simp
qed

theorem apply_optimizer_arguments_witness:
  "choose_optimizer (collab [[1, 2, 3]]) (optimizer_name (ao_with ''lbfgs'' ''max_objective''))
     (noncontext_bounds (context_manager (ao_with ''lbfgs'' ''max_objective''))) =
     (Inr ''lbfgs'', [(0, 10), (0, 1), (0, 1)]) \<and>
   bind_generator
         (ao_with ''lbfgs'' ''max_objective'') (Some ''f'') =
           Inr (Some (ObjectiveAnchorPointsGenerator space3 ''random'' (Some ''f''))) \<and>
   anchor_points_get (collab [[1, 2, 3]]) (ObjectiveAnchorPointsGenerator space3 ''random'' (Some ''f'')) None
     ((context_manager (ao_with ''lbfgs'' ''max_objective''))\<lparr> noncontext_bounds := [(0, 10), (0, 1), (0, 1)] \<rparr>) None =
     (Inr [[1, 2, 3]], None, init_fields space3) \<and>
   snd (optimize_anchors (collab [[1, 2, 3]])
         (ao_with ''lbfgs'' ''max_objective'') (Some ''f'') (Some ''df'') (Some ''f_df'') None None) =
           Inr [([1, 2, 3], Number 12)]"
proof -
  have a: "choose_optimizer (collab [[1, 2, 3]]) (optimizer_name (ao_with ''lbfgs'' ''max_objective''))
     (noncontext_bounds (context_manager (ao_with ''lbfgs'' ''max_objective''))) =
     (Inr ''lbfgs'', [(0, 10), (0, 1), (0, 1)])"
    by (simp add: run_optimize)
  have b: "bind_generator
        (ao_with ''lbfgs'' ''max_objective'') (Some ''f'') =
          Inr (Some (ObjectiveAnchorPointsGenerator space3 ''random'' (Some ''f'')))"
    by (simp add: run_optimize)
  have c: "anchor_points_get (collab [[1, 2, 3]]) (ObjectiveAnchorPointsGenerator space3 ''random'' (Some ''f'')) None
     ((context_manager (ao_with ''lbfgs'' ''max_objective''))\<lparr> noncontext_bounds := [(0, 10), (0, 1), (0, 1)] \<rparr>) None =
     (Inr [[1, 2, 3]], None, init_fields space3)"
    by (simp add: run_optimize)
  have r: "snd (optimize_anchors (collab [[1, 2, 3]])
        (ao_with ''lbfgs'' ''max_objective'') (Some ''f'') (Some ''df'') (Some ''f_df'') None None) =
          Inr [([1, 2, 3], Number 12)]"
    by (simp add: run_optimize)
  show ?thesis
    using apply_optimizer_arguments [OF a b c, of "Some ''df''" "Some ''f_df''"] a b c r
    by simp
qed

text \<open>
  C3 as stated fails: \<^verbatim>\<open>optimize\<close> is given the gradient \<open>df\<close> and the call of
  \<^verbatim>\<open>apply_optimizer\<close> receives \<open>None\<close> in its place.
\<close>

theorem apply_optimizer_gradient_dropped:
  "map arg_df
     (apply_calls (apply_optimizer (collab [[1, 2, 3]]))
        (call_args space3 ''lbfgs'' (Some ''f'') (Some ''df'') (Some ''f_df''))
        (None, init_fields space3) [[1, 2, 3]]) = [None] \<and>
   map arg_df
     (apply_calls (apply_optimizer (collab [[1, 2, 3]]))
        (call_args space3 ''lbfgs'' (Some ''f'') (Some ''df'') (Some ''f_df''))
        (None, init_fields space3) [[1, 2, 3]]) \<noteq> [Some ''df'']"
  by (simp add: call_args_def)

text \<open>
  C4, as the module has it. When \<^verbatim>\<open>optimize\<close> returns, it returns the pair at the index
  \<open>min_idx\<close> that \<^verbatim>\<open>np.argmin\<close> finds, and the counter \<open>spec_win_cnt\<close> has grown by exactly
  one if \<open>min_idx\<close> is 5 or more (beyond the first \<open>num_anchors = 5\<close> positions) and is what
  it was before the call otherwise. That index is the first index of the least value when
  no value is NaN, and the index of the first NaN when there is one.
\<close>

theorem spec_win_cnt_step:
  assumes "snd (optimize E s f df f_df dm x_opt) = Inr r"
  shows "\<exists>optimized_points min_idx.
           snd (optimize_anchors E s f df f_df dm x_opt) = Inr optimized_points \<and>
           min_idx < length optimized_points \<and>
           r = optimized_points ! min_idx \<and>
           ((\<forall>p \<in> set optimized_points. \<not> isnan (snd p)) \<longrightarrow>
              (\<forall>j<length optimized_points.
                 number_le (snd (optimized_points ! min_idx)) (snd (optimized_points ! j))) \<and>
              (\<forall>j<min_idx.
                 number_less (snd (optimized_points ! min_idx)) (snd (optimized_points ! j)))) \<and>
           ((\<exists>p \<in> set optimized_points. isnan (snd p)) \<longrightarrow>
              isnan (snd (optimized_points ! min_idx)) \<and>
              (\<forall>j<min_idx. \<not> isnan (snd (optimized_points ! j)))) \<and>
           spec_win_cnt (fst (fst (optimize E s f df f_df dm x_opt))) =
             (if 5 \<le> min_idx then spec_win_cnt s + 1 else spec_win_cnt s)"
proof -
  from optimize_returns [OF assms] obtain ops
    where ops: "snd (optimize_anchors E s f df f_df dm x_opt) = Inr ops" "ops \<noteq> []" by blast
  from optimize_select [OF ops] obtain m where m: "m < length ops"
    "(\<forall>p \<in> set ops. \<not> isnan (snd p)) \<longrightarrow>
       (\<forall>j<length ops. number_le (snd (ops ! m)) (snd (ops ! j))) \<and>
       (\<forall>j<m. number_less (snd (ops ! m)) (snd (ops ! j)))"
    "(\<exists>p \<in> set ops. isnan (snd p)) \<longrightarrow>
       isnan (snd (ops ! m)) \<and> (\<forall>j<m. \<not> isnan (snd (ops ! j)))"
    "snd (optimize E s f df f_df dm x_opt) = Inr (ops ! m)"
    "spec_win_cnt (fst (fst (optimize E s f df f_df dm x_opt))) =
       (if 5 \<le> m then spec_win_cnt s + 1 else spec_win_cnt s)"
    by blast
  from m(4) assms have "r = ops ! m" by simp
  with ops(1) m(1,2,3,5) show ?thesis by blast
qed

theorem spec_win_cnt_step_witness:
  "snd (optimize (collab [[0, 0, 0], [2, 0, 1], [4, 0, 1], [3, 1, 1], [3, 0, 0]])
          (ao_with ''lbfgs'' ''max_objective'') (Some ''f'') None None None
          (Some [3, 0, 1])) = Inr ([3, 0, 1], Number 0) \<and>
   spec_win_cnt
     (fst (fst (optimize (collab [[0, 0, 0], [2, 0, 1], [4, 0, 1], [3, 1, 1], [3, 0, 0]])
                  (ao_with ''lbfgs'' ''max_objective'') (Some ''f'') None None None
                  (Some [3, 0, 1])))) = 1 \<and>
   snd (optimize (collab [[0, 0, 0], [2, 0, 1], [4, 0, 1], [3, 1, 1], [3, 0, 0]])
          (ao_with ''lbfgs'' ''max_objective'') (Some ''f'') None None None
          None) = Inr ([2, 0, 1], Number 1) \<and>
   spec_win_cnt
     (fst (fst (optimize (collab [[0, 0, 0], [2, 0, 1], [4, 0, 1], [3, 1, 1], [3, 0, 0]])
                  (ao_with ''lbfgs'' ''max_objective'') (Some ''f'') None None None
                  None))) = 0"
proof -
  have h: "snd (optimize (collab [[0, 0, 0], [2, 0, 1], [4, 0, 1], [3, 1, 1], [3, 0, 0]])
          (ao_with ''lbfgs'' ''max_objective'') (Some ''f'') None None None
          (Some [3, 0, 1])) = Inr ([3, 0, 1], Number 0)"
    by (simp add: run_optimize)
  have c: "spec_win_cnt
     (fst (fst (optimize (collab [[0, 0, 0], [2, 0, 1], [4, 0, 1], [3, 1, 1], [3, 0, 0]])
                  (ao_with ''lbfgs'' ''max_objective'') (Some ''f'') None None None
                  (Some [3, 0, 1])))) = 1"
    by (simp add: run_optimize)
  have h': "snd (optimize (collab [[0, 0, 0], [2, 0, 1], [4, 0, 1], [3, 1, 1], [3, 0, 0]])
          (ao_with ''lbfgs'' ''max_objective'') (Some ''f'') None None None
          None) = Inr ([2, 0, 1], Number 1)"
    by (simp add: run_optimize)
  have c': "spec_win_cnt
     (fst (fst (optimize (collab [[0, 0, 0], [2, 0, 1], [4, 0, 1], [3, 1, 1], [3, 0, 0]])
                  (ao_with ''lbfgs'' ''max_objective'') (Some ''f'') None None None
                  None))) = 0"
    by (simp add: run_optimize)
  show ?thesis
    using spec_win_cnt_step [OF h] spec_win_cnt_step [OF h'] h c h' c' by simp
qed

text \<open>
  C4 as stated fails: the least value, 0, is at the first anchor, within the first five
  positions, and the counter grows all the same, because the objective is NaN at the
  sixth point and that pair wins, although NaN is not at most 0.
\<close>

theorem nan_value_moves_spec_win_cnt:
  "snd (optimize_anchors (collab [[3, 0, 1], [2, 0, 1], [4, 0, 1], [2, 0, 1], [4, 0, 1]])
        (ao_with ''lbfgs'' ''max_objective'') (Some ''f'') None None None (Some [-1, 0, 0])) =
     Inr [([3, 0, 1], Number 0), ([2, 0, 1], Number 1), ([4, 0, 1], Number 1),
          ([2, 0, 1], Number 1), ([4, 0, 1], Number 1), ([-1, 0, 0], NaN)] \<and>
   snd (optimize (collab [[3, 0, 1], [2, 0, 1], [4, 0, 1], [2, 0, 1], [4, 0, 1]])
         (ao_with ''lbfgs'' ''max_objective'') (Some ''f'') None None None (Some [-1, 0, 0])) =
           Inr ([-1, 0, 0], NaN) \<and>
   spec_win_cnt (ao_with ''lbfgs'' ''max_objective'') = 0 \<and>
   spec_win_cnt (fst (fst (optimize (collab [[3, 0, 1], [2, 0, 1], [4, 0, 1], [2, 0, 1], [4, 0, 1]])
         (ao_with ''lbfgs'' ''max_objective'') (Some ''f'') None None None (Some [-1, 0, 0])))) =
           1 \<and>
   \<not> number_le NaN (Number (0 :: int))"
  by (simp add: run_optimize number_le_def)

subsection \<open>The constructor of ContextManager\<close>

lemma update_context_frame:
  "update_context cm ctx = Inr cm' \<Longrightarrow>
     ContextManager.space cm' = ContextManager.space cm \<and> all_index cm' = all_index cm \<and>
     all_index_obj cm' = all_index_obj cm \<and> noncontext_bounds cm' = noncontext_bounds cm \<and>
     noncontext_index cm' = noncontext_index cm"
proof (induction ctx arbitrary: cm)
  case Nil
  then show ?case by simp
next
  case (Cons p ctx)
  obtain n v where p: "p = (n, v)" by (cases p)
  from Cons.prems p obtain var where
    var: "find_variable (ContextManager.space cm) n = Inr var" and
    step: "update_context
            (cm\<lparr> context_index := context_index cm @ index_in_model var,
                 context_index_obj := context_index_obj cm @ index_in_objective var,
                 context_value := context_value cm @ objective_to_model var v \<rparr>) ctx = Inr cm'"
    by (auto split: sum.splits)
  from Cons.IH [OF step] show ?case by simp
qed

lemma ContextManager_init_fields:
  assumes "ContextManager_init sp context = Inr cm"
  shows "ContextManager.space cm = sp \<and>
         all_index cm = range_list (model_dimensionality sp) \<and>
         noncontext_index cm = filter (\<lambda>idx. idx \<notin> set (context_index cm)) (all_index cm)"
proof (cases "context")
  case None
  with assms have "cm = init_fields sp" by (simp add: ContextManager_init_def)
  then show ?thesis by (simp add: init_fields_def)
next
  case (Some ctx)
  with assms obtain cm1 nb where
    cm1: "update_context (init_fields sp) ctx = Inr cm1" and
    cm: "cm = cm1\<lparr> noncontext_index :=
                      filter (\<lambda>idx. idx \<notin> set (context_index cm1)) (all_index cm1),
                    noncontext_bounds := nb,
                    nocontext_index_obj :=
                      filter (\<lambda>idx. idx \<notin> set (context_index_obj cm1)) (all_index_obj cm1) \<rparr>"
    by (auto simp: ContextManager_init_def Let_def split: sum.splits)
  from update_context_frame [OF cm1] cm show ?thesis by (simp add: init_fields_def)
qed

lemma update_context_index:
  assumes "update_context cm ctx = Inr cm'"
    and "\<forall>(n, v) \<in> set ctx. \<forall>var. find_variable (ContextManager.space cm) n = Inr var \<longrightarrow>
           set (index_in_model var) \<subseteq> S"
    and "set (context_index cm) \<subseteq> S"
  shows "set (context_index cm') \<subseteq> S"
  using assms
proof (induction ctx arbitrary: cm)
  case Nil
  then show ?case by simp
next
  case (Cons p ctx)
  obtain n v where p: "p = (n, v)" by (cases p)
  from Cons.prems(1) p obtain var where
    var: "find_variable (ContextManager.space cm) n = Inr var" and
    step: "update_context
            (cm\<lparr> context_index := context_index cm @ index_in_model var,
                 context_index_obj := context_index_obj cm @ index_in_objective var,
                 context_value := context_value cm @ objective_to_model var v \<rparr>) ctx = Inr cm'"
    by (auto split: sum.splits)
  from Cons.prems(2) p var have "set (index_in_model var) \<subseteq> S" by auto
  with Cons.prems(2,3) show ?case
    by (intro Cons.IH [OF step]) auto
qed

lemma range_list_set: "set (range_list d) = int ` {0..<d}"
  by (simp add: range_list_def)

lemma range_list_sorted: "sorted_wrt (<) (range_list d)"
  by (simp add: range_list_def sorted_wrt_map)

lemma index_partition:
  assumes "all_index cm = range_list d"
    and "noncontext_index cm = filter (\<lambda>idx. idx \<notin> set (context_index cm)) (all_index cm)"
  shows "set (context_index cm) \<inter> set (noncontext_index cm) = {}"
    and "sorted_wrt (<) (noncontext_index cm)"
    and "subseq (noncontext_index cm) (all_index cm)"
    and "set (context_index cm) \<subseteq> set (all_index cm) \<Longrightarrow>
         set (context_index cm) \<union> set (noncontext_index cm) = set (all_index cm)"
  using assms range_list_sorted [of d]
  by (auto simp: sorted_wrt_filter)

lemma ContextManager_init_context:
  assumes "ContextManager_init sp (Some ctx) = Inr cm"
  shows "\<exists>cm1. update_context (init_fields sp) ctx = Inr cm1 \<and>
               context_index cm = context_index cm1 \<and> context_value cm = context_value cm1"
  using assms by (auto simp: ContextManager_init_def Let_def split: sum.splits)

lemma init_fields_consistent: "context_consistent (init_fields sp)"
  by (simp add: context_consistent_def init_fields_def)

lemma in_range_list: "0 \<le> i \<Longrightarrow> i < int d \<Longrightarrow> i \<in> set (range_list d)"
  unfolding range_list_set by (rule image_eqI [of _ _ "nat i"]) simp_all

lemma context_in_space_indices:
  assumes "context_in_space sp ctx" "(n, v) \<in> set ctx" "find_variable sp n = Inr var"
  shows "set (index_in_model var) \<subseteq> set (range_list (model_dimensionality sp))"
proof -
  from assms have "list_all (\<lambda>i. 0 \<le> i \<and> i < int (model_dimensionality sp)) (index_in_model var)"
    by (auto simp: context_in_space_def list_all_iff)
  then show ?thesis by (auto simp: list_all_iff in_range_list)
qed

text \<open>
  The context fields are the concatenation, over the items of the context, of the model
  indices of each variable and of the encoding of its value. On a space whose bounds cover
  every dimension the constructor returns, and where the variables of the context share no
  model index and each value is encoded on as many entries as its variable has indices, the
  manager meets the data model's conditions.
\<close>

lemma update_context_concat:
  assumes "update_context cm ctx = Inr cm'"
  shows "context_index cm' = context_index cm @
           concat (map (\<lambda>(n, v). case find_variable (ContextManager.space cm) n of
                                    Inl e \<Rightarrow> [] | Inr var \<Rightarrow> index_in_model var) ctx) \<and>
         context_value cm' = context_value cm @
           concat (map (\<lambda>(n, v). case find_variable (ContextManager.space cm) n of
                                    Inl e \<Rightarrow> [] | Inr var \<Rightarrow> objective_to_model var v) ctx)"
  using assms
proof (induction ctx arbitrary: cm)
  case Nil
  then show ?case by simp
next
  case (Cons p ctx)
  obtain n v where p: "p = (n, v)" by (cases p)
  from Cons.prems p obtain var where
    var: "find_variable (ContextManager.space cm) n = Inr var" and
    step: "update_context
            (cm\<lparr> context_index := context_index cm @ index_in_model var,
                 context_index_obj := context_index_obj cm @ index_in_objective var,
                 context_value := context_value cm @ objective_to_model var v \<rparr>) ctx = Inr cm'"
    by (auto split: sum.splits)
  from Cons.IH [OF step] var p show ?case by simp
qed

lemma comprehension_getitem:
  "\<forall>i \<in> set idx. 0 \<le> i \<and> i < int (length xs) \<Longrightarrow>
   comprehension (getitem xs) idx = Inr (map (\<lambda>i. xs ! nat i) idx)"
  by (induction idx) (simp_all add: getitem_def)

lemma update_context_succeeds:
  assumes "\<forall>(n, v) \<in> set ctx. \<exists>var. find_variable (ContextManager.space cm) n = Inr var"
  shows "\<exists>cm'. update_context cm ctx = Inr cm'"
  using assms
proof (induction ctx arbitrary: cm)
  case Nil
  then show ?case by simp
next
  case (Cons p ctx)
  obtain n v where p: "p = (n, v)" by (cases p)
  with Cons.prems obtain var where var: "find_variable (ContextManager.space cm) n = Inr var"
    by auto
  let ?cm = "cm\<lparr> context_index := context_index cm @ index_in_model var,
                 context_index_obj := context_index_obj cm @ index_in_objective var,
                 context_value := context_value cm @ objective_to_model var v \<rparr>"
  from Cons.prems have "\<forall>(n, v) \<in> set ctx. \<exists>var. find_variable (ContextManager.space ?cm) n = Inr var"
    by simp
  from Cons.IH [OF this] var p show ?case by simp
qed

lemma ContextManager_init_succeeds:
  assumes wf: "context_in_space sp ctx"
    and bounds: "model_dimensionality sp \<le> length (get_bounds sp)"
  shows "\<exists>cm. ContextManager_init sp (Some ctx) = Inr cm"
proof -
  have "\<forall>(n, v) \<in> set ctx. \<exists>var. find_variable (ContextManager.space (init_fields sp)) n = Inr var"
    using wf by (auto simp: context_in_space_def list_all_iff init_fields_def split: sum.splits)
  from update_context_succeeds [OF this] obtain cm1
    where cm1: "update_context (init_fields sp) ctx = Inr cm1" by blast
  from update_context_frame [OF cm1]
  have ai: "all_index cm1 = range_list (model_dimensionality sp)"
    and nb: "noncontext_bounds cm1 = get_bounds sp"
    by (simp_all add: init_fields_def)
  have "\<forall>i \<in> set (filter (\<lambda>idx. idx \<notin> set (context_index cm1)) (all_index cm1)).
          0 \<le> i \<and> i < int (length (noncontext_bounds cm1))"
    using ai nb bounds by (auto simp: range_list_set)
  from comprehension_getitem [OF this] cm1 show ?thesis
    by (simp add: ContextManager_init_def Let_def)
qed

lemma length_concat_map_eq:
  "\<forall>p \<in> set ps. length (g p) = length (h p) \<Longrightarrow>
   length (concat (map g ps)) = length (concat (map h ps))"
  by (induction ps) simp_all

lemma ContextManager_init_consistent:
  assumes init: "ContextManager_init sp (Some ctx) = Inr cm"
    and wf: "context_in_space sp ctx"
    and once: "distinct (concat (map (\<lambda>(n, v). case find_variable sp n of
                                    Inl e \<Rightarrow> [] | Inr var \<Rightarrow> index_in_model var) ctx))"
    and enc: "\<forall>(n, v) \<in> set ctx. \<forall>var. find_variable sp n = Inr var \<longrightarrow>
                length (objective_to_model var v) = length (index_in_model var)"
  shows "context_consistent cm"
proof -
  from init obtain cm1 where
    cm1: "update_context (init_fields sp) ctx = Inr cm1" "context_index cm = context_index cm1"
      "context_value cm = context_value cm1" "all_index cm = all_index cm1"
    by (auto simp: ContextManager_init_def Let_def split: sum.splits)
  from update_context_concat [OF cm1(1)]
  have ci: "context_index cm1 = concat (map (\<lambda>(n, v). case find_variable sp n of
                                    Inl e \<Rightarrow> [] | Inr var \<Rightarrow> index_in_model var) ctx)"
    and cv: "context_value cm1 = concat (map (\<lambda>(n, v). case find_variable sp n of
                                    Inl e \<Rightarrow> [] | Inr var \<Rightarrow> objective_to_model var v) ctx)"
    by (simp_all add: init_fields_def)
  have len: "length (context_value cm1) = length (context_index cm1)"
    unfolding ci cv using enc
    by (intro length_concat_map_eq) (auto split: sum.splits)
  from update_context_frame [OF cm1(1)]
  have ai: "all_index cm1 = range_list (model_dimensionality sp)"
    by (simp add: init_fields_def)
  have "set (context_index cm1) \<subseteq> set (all_index cm1)"
    unfolding ci ai using wf
    by (auto simp: context_in_space_def list_all_iff in_range_list split: sum.splits)
  with len once ci cm1(2,3,4) show ?thesis by (simp add: context_consistent_def)
qed

subsection \<open>Writing columns\<close>

lemma comprehension_axis_index:
  "\<forall>i \<in> set idx. 0 \<le> i \<and> i < int d \<Longrightarrow> comprehension (axis_index d) idx = Inr (map nat idx)"
  by (induction idx) (simp_all add: axis_index_def)

lemma length_write_row [simp]: "length (write_row js vs row) = length row"
proof (induction js arbitrary: vs row)
  case Nil
  then show ?case by (simp add: write_row_def)
next
  case (Cons j js)
  then show ?case by (cases vs) (simp_all add: write_row_def)
qed

lemma write_row_Cons:
  "write_row (j # js) (v # vs) row = write_row js vs (row[j := v])"
  by (simp add: write_row_def)

lemma write_row_other: "i \<notin> set js \<Longrightarrow> write_row js vs row ! i = row ! i"
proof (induction js arbitrary: vs row)
  case Nil
  then show ?case by (simp add: write_row_def)
next
  case (Cons j js)
  show ?case
  proof (cases vs)
    case Nil
    then show ?thesis by (simp add: write_row_def)
  next
    case (Cons v vs')
    with Cons.prems Cons.IH [of vs' "row[j := v]"] show ?thesis
      by (simp add: write_row_Cons)
  qed
qed

lemma write_row_at:
  assumes "distinct js" "length vs = length js" "\<forall>j \<in> set js. j < length row" "t < length js"
  shows "write_row js vs row ! (js ! t) = vs ! t"
  using assms
proof (induction js arbitrary: vs row t)
  case Nil
  then show ?case by simp
next
  case (Cons j js)
  from Cons.prems(2) obtain v vs' where vs: "vs = v # vs'" by (cases vs) auto
  show ?case
  proof (cases t)
    case 0
    from Cons.prems(1) have "j \<notin> set js" by simp
    with Cons.prems(3) show ?thesis
      by (simp add: vs 0 write_row_Cons write_row_other)
  next
    case (Suc t')
    from Cons.prems have "write_row js vs' (row[j := v]) ! (js ! t') = vs' ! t'"
      by (intro Cons.IH) (simp_all add: vs Suc)
    then show ?thesis by (simp add: vs Suc write_row_Cons)
  qed
qed

lemma stretch_same: "length xs = m \<Longrightarrow> stretch m xs = xs"
  by (simp add: stretch_def)

lemma broadcast_to_same:
  assumes "length rows = n" "list_all (\<lambda>r. length r = k) rows"
  shows "broadcast_to n k (Array2 k rows) = Inr rows"
proof -
  from assms(2) have "map (stretch k) rows = rows"
    by (intro map_idI) (simp add: list_all_iff stretch_same)
  with assms(1) show ?thesis by (simp add: fits_def stretch_same)
qed

lemma broadcast_to_vector:
  "length v = k \<Longrightarrow> broadcast_to n k (Array1 v) = Inr (replicate n v)"
  by (simp add: fits_def stretch_same)

lemma map2_replicate_right: "map2 f xs (replicate (length xs) z) = map (\<lambda>x. f x z) xs"
  by (induction xs) simp_all

lemma map2_replicate_left: "map2 f (replicate (length ys) v) ys = map (f v) ys"
  by (induction ys) simp_all

lemma set_columns_rows:
  assumes "\<forall>i \<in> set idx. 0 \<le> i \<and> i < int d"
    and "length xrows = n" "list_all (\<lambda>r. length r = length idx) xrows"
  shows "set_columns (Array2 d (replicate n z)) idx (Array2 (length idx) xrows) =
         Inr (Array2 d (map (\<lambda>r. write_row (map nat idx) r z) xrows))"
  using assms comprehension_axis_index [OF assms(1)] broadcast_to_same [OF assms(2,3)]
    map2_replicate_right [of "write_row (map nat idx)" xrows z]
  by simp

lemma set_columns_vector:
  assumes "\<forall>i \<in> set idx. 0 \<le> i \<and> i < int d" and "length v = length idx"
  shows "set_columns (Array2 d rows) idx (Array1 v) =
         Inr (Array2 d (map (write_row (map nat idx) v) rows))"
  using comprehension_axis_index [OF assms(1)] broadcast_to_vector [OF assms(2), of "length rows"]
    map2_replicate_left [of "write_row (map nat idx)" rows v]
  by simp

lemma nrows_atleast_2d: "atleast_2d x0 = Array2 k rows \<Longrightarrow> nrows (atleast_2d x0) = length rows"
  by simp

lemma expand_vector_rows:
  fixes cm :: "('a::zero, 'c, 'w) ContextManager"
  assumes sp: "ContextManager.space cm = sp"
    and ai: "all_index cm = range_list (model_dimensionality sp)"
    and nci: "noncontext_index cm = filter (\<lambda>idx. idx \<notin> set (context_index cm)) (all_index cm)"
    and cc: "context_consistent cm"
    and x: "atleast_2d x0 = Array2 (length (noncontext_index cm)) rows"
    and rect: "rectangular (atleast_2d x0)"
  shows "expand_vector cm x0 =
         Inr (Array2 (model_dimensionality sp)
               (map (\<lambda>r. write_row (map nat (context_index cm)) (context_value cm)
                           (write_row (map nat (noncontext_index cm)) r
                              (replicate (model_dimensionality sp) 0))) rows))"
proof -
  let ?d = "model_dimensionality sp"
  have n_range: "\<forall>i \<in> set (noncontext_index cm). 0 \<le> i \<and> i < int ?d"
    using nci ai by (auto simp: range_list_set)
  have c_range: "\<forall>i \<in> set (context_index cm). 0 \<le> i \<and> i < int ?d"
    using cc ai by (auto simp: context_consistent_def range_list_set)
  have c_len: "length (context_value cm) = length (context_index cm)"
    using cc by (simp add: context_consistent_def)
  from rect x have rows: "list_all (\<lambda>r. length r = length (noncontext_index cm)) rows"
    by simp
  have first: "set_columns (zeros (nrows (atleast_2d x0)) ?d) (noncontext_index cm) (atleast_2d x0) =
      Inr (Array2 ?d (map (\<lambda>r. write_row (map nat (noncontext_index cm)) r (replicate ?d 0)) rows))"
    unfolding x zeros_def nrows.simps
    by (rule set_columns_rows [OF n_range refl rows])
  have second: "set_columns (Array2 ?d R) (context_index cm) (Array1 (context_value cm)) =
      Inr (Array2 ?d (map (write_row (map nat (context_index cm)) (context_value cm)) R))" for R
    by (rule set_columns_vector [OF c_range c_len])
  show ?thesis
    unfolding expand_vector_def Let_def sp first
    by (simp only: sum.case second map_map comp_def)
qed

lemma atleast_2d_rows: "atleast_2d x = Array2 (ncols x) (array_rows x)"
  by (cases x) simp_all

lemma rectangular_rows:
  "rectangular x \<Longrightarrow> list_all (\<lambda>r. length r = ncols x) (array_rows x)"
  by (cases x) simp_all

lemma distinct_map_nat: "distinct xs \<Longrightarrow> \<forall>i \<in> set xs. 0 \<le> i \<Longrightarrow> distinct (map nat xs)"
  by (auto simp: distinct_map inj_on_def eq_nat_nat_iff)

lemma expand_vector_entries:
  fixes cm :: "('a::zero, 'c, 'w) ContextManager"
  assumes init: "ContextManager_init sp ctx = Inr cm"
    and cc: "context_consistent cm"
    and rect: "rectangular x"
    and width: "ncols x = length (noncontext_index cm)"
  shows "\<exists>out. expand_vector cm x = Inr (Array2 (model_dimensionality sp) out) \<and>
           length out = length (array_rows x) \<and>
           (\<forall>i<length out.
              length (out ! i) = model_dimensionality sp \<and>
              (\<forall>j<length (noncontext_index cm).
                 out ! i ! nat (noncontext_index cm ! j) = array_rows x ! i ! j) \<and>
              (\<forall>j<length (context_index cm).
                 out ! i ! nat (context_index cm ! j) = context_value cm ! j))"
proof -
  let ?d = "model_dimensionality sp"
  let ?nci = "noncontext_index cm" and ?ci = "context_index cm" and ?cv = "context_value cm"
  let ?F = "\<lambda>r. write_row (map nat ?ci) ?cv (write_row (map nat ?nci) r (replicate ?d 0))"
  from ContextManager_init_fields [OF init]
  have sp: "ContextManager.space cm = sp" and ai: "all_index cm = range_list ?d"
    and nci: "?nci = filter (\<lambda>idx. idx \<notin> set ?ci) (all_index cm)" by simp_all
  have x2: "atleast_2d x = Array2 (length ?nci) (array_rows x)"
    using atleast_2d_rows [of x] width by simp
  have rect2: "rectangular (atleast_2d x)"
    using rect by (cases x) simp_all
  have run: "expand_vector cm x = Inr (Array2 ?d (map ?F (array_rows x)))"
    by (rule expand_vector_rows [OF sp ai nci cc x2 rect2])
  have n_range: "\<forall>i \<in> set ?nci. 0 \<le> i \<and> i < int ?d"
    using nci ai by (auto simp: range_list_set)
  have c_range: "\<forall>i \<in> set ?ci. 0 \<le> i \<and> i < int ?d"
    using cc ai by (auto simp: context_consistent_def range_list_set)
  have c_len: "length ?cv = length ?ci" and c_dist: "distinct ?ci"
    using cc by (simp_all add: context_consistent_def)
  have n_dist: "distinct ?nci"
    using nci ai by (simp add: range_list_def distinct_map)
  have nd: "distinct (map nat ?nci)" using n_dist n_range by (simp add: distinct_map_nat)
  have cd: "distinct (map nat ?ci)" using c_dist c_range by (simp add: distinct_map_nat)
  have nb: "\<forall>j \<in> set (map nat ?nci). j < ?d" using n_range by auto
  have cb: "\<forall>j \<in> set (map nat ?ci). j < ?d" using c_range by auto
  have apart: "nat (?nci ! j) \<notin> set (map nat ?ci)" if "j < length ?nci" for j
  proof
    assume "nat (?nci ! j) \<in> set (map nat ?ci)"
    then obtain c where c: "c \<in> set ?ci" "nat (?nci ! j) = nat c" by auto
    from that have m: "?nci ! j \<in> set ?nci" by simp
    with n_range c_range c have "?nci ! j = c" by (simp add: eq_nat_nat_iff)
    moreover have "set ?nci \<inter> set ?ci = {}" by (subst nci) auto
    with m have "?nci ! j \<notin> set ?ci" by blast
    ultimately show False using c(1) by simp
  qed
  have rows: "list_all (\<lambda>r. length r = length ?nci) (array_rows x)"
    using rectangular_rows [OF rect] width by simp
  have row: "length (?F r) = ?d \<and>
             (\<forall>j<length ?nci. ?F r ! nat (?nci ! j) = r ! j) \<and>
             (\<forall>j<length ?ci. ?F r ! nat (?ci ! j) = ?cv ! j)"
    if r: "length r = length ?nci" for r
  proof (intro conjI allI impI)
    show "length (?F r) = ?d" by simp
  next
    fix j assume j: "j < length ?nci"
    have "?F r ! nat (?nci ! j) = write_row (map nat ?nci) r (replicate ?d 0) ! nat (?nci ! j)"
      by (rule write_row_other [OF apart [OF j]])
    also have "\<dots> = write_row (map nat ?nci) r (replicate ?d 0) ! (map nat ?nci ! j)"
      using j by simp
    also have "\<dots> = r ! j"
      using nd r nb j by (intro write_row_at) simp_all
    finally show "?F r ! nat (?nci ! j) = r ! j" .
  next
    fix j assume j: "j < length ?ci"
    have "?F r ! nat (?ci ! j) = ?F r ! (map nat ?ci ! j)" using j by simp
    also have "\<dots> = ?cv ! j"
      using cd c_len cb j by (intro write_row_at) simp_all
    finally show "?F r ! nat (?ci ! j) = ?cv ! j" .
  qed
  have "\<forall>i<length (map ?F (array_rows x)).
              length (map ?F (array_rows x) ! i) = ?d \<and>
              (\<forall>j<length ?nci. map ?F (array_rows x) ! i ! nat (?nci ! j) = array_rows x ! i ! j) \<and>
              (\<forall>j<length ?ci. map ?F (array_rows x) ! i ! nat (?ci ! j) = ?cv ! j)"
  proof (intro allI impI)
    fix i assume "i < length (map ?F (array_rows x))"
    then have i: "i < length (array_rows x)" by simp
    with rows have "length (array_rows x ! i) = length ?nci"
      by (simp add: list_all_length)
    from row [OF this] i
    show "length (map ?F (array_rows x) ! i) = ?d \<and>
              (\<forall>j<length ?nci. map ?F (array_rows x) ! i ! nat (?nci ! j) = array_rows x ! i ! j) \<and>
              (\<forall>j<length ?ci. map ?F (array_rows x) ! i ! nat (?ci ! j) = ?cv ! j)"
      by simp
  qed
  with run show ?thesis by (intro exI [of _ "map ?F (array_rows x)"]) simp
qed

lemma take_columns_rows:
  assumes "\<forall>i \<in> set idx. 0 \<le> i \<and> i < int d"
    and "\<forall>r \<in> set rows. length r = length idx"
    and "length out = length rows"
    and "\<forall>i<length out. \<forall>j<length idx. out ! i ! nat (idx ! j) = rows ! i ! j"
  shows "take_columns (Array2 d out) idx = Inr (Array2 (length idx) rows)"
proof -
  have "map (\<lambda>row. map (\<lambda>j. row ! j) (map nat idx)) out = rows"
  proof (rule nth_equalityI)
    show "length (map (\<lambda>row. map (\<lambda>j. row ! j) (map nat idx)) out) = length rows"
      using assms(3) by simp
  next
    fix i assume "i < length (map (\<lambda>row. map (\<lambda>j. row ! j) (map nat idx)) out)"
    then have i: "i < length out" by simp
    with assms(2,3) have len: "length (rows ! i) = length idx" by simp
    have "map (\<lambda>j. out ! i ! j) (map nat idx) = rows ! i"
      using len assms(4) i by (intro nth_equalityI) simp_all
    with i show "map (\<lambda>row. map (\<lambda>j. row ! j) (map nat idx)) out ! i = rows ! i" by simp
  qed
  with comprehension_axis_index [OF assms(1)] show ?thesis by simp
qed

lemmas run_context =
  ContextManager_init_def init_fields_def space3_def var_c_def cm_c_def range_list_def
  upt_rec getitem_def Let_def

lemmas run_expand =
  expand_vector_def init_fields_def cm_c_def space3_def zeros_def axis_index_def fits_def
  stretch_def write_row_def Let_def range_list_def upt_rec numeral_3_eq_3 numeral_2_eq_2

subsection \<open>Index sets and expansion\<close>

text \<open>
  C5. For every design space, the manager built with no context has the bounds of the
  space as its non-context bounds, every index of \<open>all_index\<close> as a non-context index, and
  no context index or value; and on every input whose width is the model dimensionality
  its expansion is the input itself, as a matrix of rows.
\<close>

theorem no_context_identity:
  fixes sp :: "('a::zero, 'c, 'w) space"
  shows "\<exists>cm. ContextManager_init sp None = Inr cm \<and>
           noncontext_bounds cm = get_bounds sp \<and>
           all_index cm = range_list (model_dimensionality sp) \<and>
           noncontext_index cm = all_index cm \<and>
           context_index cm = [] \<and> context_value cm = [] \<and>
           (\<forall>x. rectangular x \<and> ncols x = model_dimensionality sp \<longrightarrow>
                expand_vector cm x = Inr (atleast_2d x))"
proof -
  let ?cm = "init_fields sp" and ?d = "model_dimensionality sp"
  have init: "ContextManager_init sp None = Inr ?cm" by (simp add: ContextManager_init_def)
  have nci: "noncontext_index ?cm = range_list ?d" by (simp add: init_fields_def)
  have "expand_vector ?cm x = Inr (atleast_2d x)" if rect: "rectangular x" and w: "ncols x = ?d" for x
  proof -
    from w nci have width: "ncols x = length (noncontext_index ?cm)" by (simp add: range_list_def)
    from expand_vector_entries [OF init init_fields_consistent rect width]
    obtain out where out: "expand_vector ?cm x = Inr (Array2 ?d out)"
      "length out = length (array_rows x)"
      "\<forall>i<length out. length (out ! i) = ?d \<and>
         (\<forall>j<length (noncontext_index ?cm).
             out ! i ! nat (noncontext_index ?cm ! j) = array_rows x ! i ! j)"
      by blast
    have "out = array_rows x"
    proof (rule nth_equalityI)
      show "length out = length (array_rows x)" by (rule out(2))
    next
      fix i assume i: "i < length out"
      with out(2) rectangular_rows [OF rect] w have len: "length (array_rows x ! i) = ?d"
        by (simp add: list_all_length)
      from out(3) i have l: "length (out ! i) = ?d"
        and e: "\<forall>j<?d. out ! i ! nat (range_list ?d ! j) = array_rows x ! i ! j"
        by (simp_all add: nci range_list_def)
      show "out ! i = array_rows x ! i"
      proof (rule nth_equalityI)
        show "length (out ! i) = length (array_rows x ! i)" using l len by simp
      next
        fix j assume "j < length (out ! i)"
        with l e show "out ! i ! j = array_rows x ! i ! j" by (simp add: range_list_def)
      qed
    qed
    with out(1) w atleast_2d_rows [of x] show ?thesis by simp
  qed
  with init show ?thesis by (simp add: init_fields_def)
qed

theorem no_context_identity_witness:
  "rectangular (Array1 [4, 5, 6 :: int]) \<and>
   ncols (Array1 [4, 5, 6 :: int]) = model_dimensionality space3 \<and>
   expand_vector (init_fields space3) (Array1 [4, 5, 6]) = Inr (Array2 3 [[4, 5, 6]])"
proof -
  from no_context_identity [of space3] obtain cm where
    cm: "ContextManager_init space3 None = Inr cm"
    and same: "\<forall>x. rectangular x \<and> ncols x = model_dimensionality space3 \<longrightarrow>
                 expand_vector cm x = Inr (atleast_2d x)"
    by blast
  from cm have "cm = init_fields space3" by (simp add: ContextManager_init_def)
  moreover have w: "ncols (Array1 [4, 5, 6 :: int]) = model_dimensionality space3"
    by (simp add: space3_def)
  ultimately show ?thesis using same by simp
qed

text \<open>
  C6. For every design space and every context whose variables belong to the space, the
  manager built from them has \<open>all_index = [0, model_dimensionality)\<close>, the context and
  non-context indices together are exactly \<open>all_index\<close>, no index is in both, and the
  non-context indices are in ascending order, a subsequence of \<open>all_index\<close>.
\<close>

theorem context_index_partition:
  assumes init: "ContextManager_init sp (Some ctx) = Inr cm"
    and wf: "context_in_space sp ctx"
  shows "all_index cm = range_list (model_dimensionality sp) \<and>
         set (context_index cm) \<union> set (noncontext_index cm) = set (all_index cm) \<and>
         set (context_index cm) \<inter> set (noncontext_index cm) = {} \<and>
         sorted_wrt (<) (noncontext_index cm) \<and>
         subseq (noncontext_index cm) (all_index cm)"
proof -
  let ?d = "model_dimensionality sp"
  from ContextManager_init_fields [OF init]
  have ai: "all_index cm = range_list ?d"
    and nci: "noncontext_index cm = filter (\<lambda>idx. idx \<notin> set (context_index cm)) (all_index cm)"
    by simp_all
  from ContextManager_init_context [OF init] obtain cm1 where
    cm1: "update_context (init_fields sp) ctx = Inr cm1" "context_index cm = context_index cm1"
    by blast
  have "set (context_index cm1) \<subseteq> set (range_list ?d)"
  proof (rule update_context_index [OF cm1(1)])
    show "\<forall>(n, v)\<in>set ctx. \<forall>var. find_variable (ContextManager.space (init_fields sp)) n = Inr var \<longrightarrow>
           set (index_in_model var) \<subseteq> set (range_list ?d)"
      using context_in_space_indices [OF wf] by (auto simp: init_fields_def)
    show "set (context_index (init_fields sp)) \<subseteq> set (range_list ?d)"
      by (simp add: init_fields_def)
  qed
  with cm1(2) ai have sub: "set (context_index cm) \<subseteq> set (all_index cm)" by simp
  from index_partition [OF ai nci] sub ai show ?thesis by simp
qed

theorem context_index_partition_witness:
  "ContextManager_init space3 (Some [(''c'', 1)]) = Inr cm_c \<and>
   context_in_space space3 [(''c'', 1)] \<and>
   set (context_index cm_c) \<union> set (noncontext_index cm_c) = set (all_index cm_c) \<and>
   set (context_index cm_c) \<inter> set (noncontext_index cm_c) = {} \<and>
   sorted_wrt (<) (noncontext_index cm_c)"
proof -
  have h1: "ContextManager_init space3 (Some [(''c'', 1)]) = Inr cm_c"
    by (simp add: run_context)
  have h2: "context_in_space space3 [(''c'', 1)]"
    by (simp add: context_in_space_def space3_def var_c_def)
  show ?thesis using context_index_partition [OF h1 h2] h1 h2 by simp
qed

text \<open>
  C7. For every manager whose context fields meet the data model's conditions, and every
  input of as many columns as there are non-context indices (a one-dimensional input
  being one row), the expansion has one row per input row and \<open>model_dimensionality\<close>
  columns; the column at the \<open>j\<close>-th non-context index is column \<open>j\<close> of the input, the
  column at the \<open>j\<close>-th context index holds the \<open>j\<close>-th context value, and the two index
  lists together name every model dimension exactly once.
\<close>

theorem expand_vector_columns_written:
  fixes cm :: "('a::zero, 'c, 'w) ContextManager"
  assumes init: "ContextManager_init sp ctx = Inr cm"
    and cc: "context_consistent cm"
    and rect: "rectangular x"
    and width: "ncols x = length (noncontext_index cm)"
  shows "\<exists>out. expand_vector cm x = Inr (Array2 (model_dimensionality sp) out) \<and>
           length out = length (array_rows x) \<and>
           (\<forall>i<length out.
              length (out ! i) = model_dimensionality sp \<and>
              (\<forall>j<length (noncontext_index cm).
                 out ! i ! nat (noncontext_index cm ! j) = array_rows x ! i ! j) \<and>
              (\<forall>j<length (context_index cm).
                 out ! i ! nat (context_index cm ! j) = context_value cm ! j)) \<and>
           distinct (noncontext_index cm @ context_index cm) \<and>
           set (noncontext_index cm @ context_index cm) =
             set (range_list (model_dimensionality sp))"
proof -
  from ContextManager_init_fields [OF init]
  have ai: "all_index cm = range_list (model_dimensionality sp)"
    and nci: "noncontext_index cm = filter (\<lambda>idx. idx \<notin> set (context_index cm)) (all_index cm)"
    by simp_all
  have "distinct (noncontext_index cm)"
    using nci ai by (simp add: range_list_def distinct_map)
  with index_partition(1,4) [OF ai nci] cc ai
  have "distinct (noncontext_index cm @ context_index cm) \<and>
        set (noncontext_index cm @ context_index cm) = set (range_list (model_dimensionality sp))"
    by (auto simp: context_consistent_def)
  with expand_vector_entries [OF init cc rect width] show ?thesis by blast
qed

theorem expand_vector_columns_written_witness:
  "ContextManager_init space3 (Some [(''c'', 1)]) = Inr cm_c \<and>
   context_consistent cm_c \<and>
   rectangular (Array2 1 [[7], [8 :: int]]) \<and>
   ncols (Array2 1 [[7], [8 :: int]]) = length (noncontext_index cm_c) \<and>
   expand_vector cm_c (Array2 1 [[7], [8]]) = Inr (Array2 3 [[7, 0, 1], [8, 0, 1]])"
proof -
  have h1: "ContextManager_init space3 (Some [(''c'', 1)]) = Inr cm_c"
    by (simp add: run_context)
  have h2: "context_consistent cm_c"
    by (simp add: context_consistent_def cm_c_def)
  have h3: "rectangular (Array2 1 [[7], [8 :: int]])" by simp
  have h4: "ncols (Array2 1 [[7], [8 :: int]]) = length (noncontext_index cm_c)"
    by (simp add: cm_c_def)
  have r: "expand_vector cm_c (Array2 1 [[7], [8]]) = Inr (Array2 3 [[7, 0, 1], [8, 0, 1]])"
    by (simp add: run_expand)
  show ?thesis using expand_vector_columns_written [OF h1 h2 h3 h4] h1 h2 h3 h4 r by simp
qed

text \<open>
  C8. Under the same conditions, let \<open>y\<close> be the expansion of \<open>x\<close>: the restriction of \<open>y\<close>
  to the non-context columns is \<open>x\<close> (as a matrix of rows), and expanding that restriction
  gives \<open>y\<close> again.
\<close>

theorem expand_vector_round_trip:
  fixes cm :: "('a::zero, 'c, 'w) ContextManager"
  assumes init: "ContextManager_init sp ctx = Inr cm"
    and cc: "context_consistent cm"
    and rect: "rectangular x"
    and width: "ncols x = length (noncontext_index cm)"
  shows "\<exists>y. expand_vector cm x = Inr y \<and>
             take_columns y (noncontext_index cm) = Inr (atleast_2d x) \<and>
             expand_vector cm (atleast_2d x) = Inr y"
proof -
  let ?d = "model_dimensionality sp"
  from expand_vector_entries [OF init cc rect width]
  obtain out where out: "expand_vector cm x = Inr (Array2 ?d out)"
    "length out = length (array_rows x)"
    "\<forall>i<length out. \<forall>j<length (noncontext_index cm).
         out ! i ! nat (noncontext_index cm ! j) = array_rows x ! i ! j"
    by blast
  from ContextManager_init_fields [OF init]
  have "\<forall>i \<in> set (noncontext_index cm). 0 \<le> i \<and> i < int ?d"
    by (auto simp: range_list_set)
  moreover have "\<forall>r \<in> set (array_rows x). length r = length (noncontext_index cm)"
    using rectangular_rows [OF rect] width by (simp add: list_all_iff)
  ultimately have "take_columns (Array2 ?d out) (noncontext_index cm) =
      Inr (Array2 (length (noncontext_index cm)) (array_rows x))"
    using out(2,3) by (rule take_columns_rows)
  then have restricted: "take_columns (Array2 ?d out) (noncontext_index cm) = Inr (atleast_2d x)"
    using atleast_2d_rows [of x] width by simp
  have "expand_vector cm (atleast_2d x) = expand_vector cm x"
    by (cases x) (simp_all add: expand_vector_def)
  with out(1) restricted show ?thesis by simp
qed

theorem expand_vector_round_trip_witness:
  "ContextManager_init space3 (Some [(''c'', 1)]) = Inr cm_c \<and>
   context_consistent cm_c \<and>
   rectangular (Array1 [7 :: int]) \<and>
   ncols (Array1 [7 :: int]) = length (noncontext_index cm_c) \<and>
   expand_vector cm_c (Array1 [7]) = Inr (Array2 3 [[7, 0, 1]]) \<and>
   take_columns (Array2 3 [[7, 0, 1 :: int]]) (noncontext_index cm_c) = Inr (Array2 1 [[7]]) \<and>
   expand_vector cm_c (Array2 1 [[7 :: int]]) = Inr (Array2 3 [[7, 0, 1]])"
proof -
  have h1: "ContextManager_init space3 (Some [(''c'', 1)]) = Inr cm_c"
    by (simp add: run_context)
  have h2: "context_consistent cm_c"
    by (simp add: context_consistent_def cm_c_def)
  have h3: "rectangular (Array1 [7 :: int])" by simp
  have h4: "ncols (Array1 [7 :: int]) = length (noncontext_index cm_c)"
    by (simp add: cm_c_def)
  have r: "expand_vector cm_c (Array1 [7]) = Inr (Array2 3 [[7, 0, 1]])"
    by (simp add: run_expand)
  from expand_vector_round_trip [OF h1 h2 h3 h4] r
  have "take_columns (Array2 3 [[7, 0, 1]]) (noncontext_index cm_c) =
          Inr (atleast_2d (Array1 [7 :: int])) \<and>
        expand_vector cm_c (atleast_2d (Array1 [7])) = Inr (Array2 3 [[7, 0, 1]])"
    by auto
  then show ?thesis using h1 h2 h3 h4 r by simp
qed

subsection \<open>What a call of \<^verbatim>\<open>optimize\<close> leaves alone, and an unknown anchor logic\<close>

text \<open>
  A collaborator that writes is seen: with the local optimizer that empties the bounds it
  is handed, the context manager of the object is another after the call.
\<close>

lemma writing_collaborator_is_seen:
  "context_manager (fst (fst (optimize (collab_writing [[1, 2, 3]]) (ao_with ''lbfgs'' ''max_objective'')
      (Some ''f'') None None None None))) \<noteq> context_manager (ao_with ''lbfgs'' ''max_objective'')"
  by (simp add: run_optimize collab_writing_def)



text \<open>
  C10, as the module has it. With a \<open>type_anchor_points_logic\<close> other than \<open>max_objective\<close>
  and \<open>thompson_sampling\<close>, the constructor returns an object, holding that value. On that
  object and on every object holding it, a call of \<^verbatim>\<open>optimize\<close> never returns: if
  \<^verbatim>\<open>choose_optimizer\<close>, which runs first, raises, the call fails with its exception;
  otherwise the call fails with \<^verbatim>\<open>UnboundLocalError\<close> where the generator is used. No
  other error is raised for the value, and the object still holds it afterwards, so every
  later call fails alike.
\<close>

theorem unknown_logic_unbound_local:
  assumes "logic \<noteq> max_objective_anchor_points_logic"
    and "logic \<noteq> thompson_sampling_anchor_points_logic"
    and "kw_type_anchor_points_logic kw = Some logic"
  shows "(\<exists>s. AcquisitionOptimizer_init sp nm kw = Inr s \<and> type_anchor_points_logic s = logic \<and>
              snd (optimize E s f df f_df dm x_opt) =
                (case fst (choose_optimizer E nm (get_bounds sp)) of
                   Inl e \<Rightarrow> Inl e
                 | Inr opt \<Rightarrow> Inl UnboundLocalError)) \<and>
         (\<forall>s. type_anchor_points_logic s = logic \<longrightarrow>
            snd (optimize E s f df f_df dm x_opt) =
              (case fst (choose_optimizer E (optimizer_name s)
                           (noncontext_bounds (context_manager s))) of
                 Inl e \<Rightarrow> Inl e
               | Inr opt \<Rightarrow> Inl UnboundLocalError) \<and>
            type_anchor_points_logic (fst (fst (optimize E s f df f_df dm x_opt))) = logic)"
proof -
  have later: "\<And>s. type_anchor_points_logic s = logic \<Longrightarrow>
            snd (optimize E s f df f_df dm x_opt) =
              (case fst (choose_optimizer E (optimizer_name s)
                           (noncontext_bounds (context_manager s))) of
                 Inl e \<Rightarrow> Inl e
               | Inr opt \<Rightarrow> Inl UnboundLocalError) \<and>
            type_anchor_points_logic (fst (fst (optimize E s f df f_df dm x_opt))) = logic"
    using assms(1,2) optimize_unbound [of _ E f df f_df dm x_opt]
      optimize_frame [of E _ f df f_df dm x_opt] by simp
  have first: "\<exists>s. AcquisitionOptimizer_init sp nm kw = Inr s \<and> type_anchor_points_logic s = logic \<and>
              snd (optimize E s f df f_df dm x_opt) =
                (case fst (choose_optimizer E nm (get_bounds sp)) of
                   Inl e \<Rightarrow> Inl e
                 | Inr opt \<Rightarrow> Inl UnboundLocalError)"
    using assms
    by (simp add: AcquisitionOptimizer_init_def ContextManager_init_def init_fields_def
        optimize_unbound)
  show ?thesis using first later by blast
qed

theorem unknown_logic_unbound_local_witness:
  "''max_objectiv'' \<noteq> max_objective_anchor_points_logic \<and>
   ''max_objectiv'' \<noteq> thompson_sampling_anchor_points_logic \<and>
   kw_type_anchor_points_logic
     \<lparr> kw_model = None :: unit option, kw_type_anchor_points_logic = Some ''max_objectiv'' \<rparr> =
     Some ''max_objectiv'' \<and>
   AcquisitionOptimizer_init space3 ''lbfgs''
     \<lparr> kw_model = None, kw_type_anchor_points_logic = Some ''max_objectiv'' \<rparr> =
     Inr (ao_with ''lbfgs'' ''max_objectiv'') \<and>
   snd (optimize (collab [[1, 2, 3]]) (ao_with ''lbfgs'' ''max_objectiv'')
          (Some ''f'') None None None None) =
     Inl UnboundLocalError"
proof -
  have i: "AcquisitionOptimizer_init space3 ''lbfgs''
     \<lparr> kw_model = None, kw_type_anchor_points_logic = Some ''max_objectiv'' \<rparr> =
     Inr (ao_with ''lbfgs'' ''max_objectiv'')"
    by (simp add: AcquisitionOptimizer_init_def ContextManager_init_def ao_with_def)
  have a: "''max_objectiv'' \<noteq> max_objective_anchor_points_logic"
    by (simp add: max_objective_anchor_points_logic_def)
  have b: "''max_objectiv'' \<noteq> thompson_sampling_anchor_points_logic"
    by (simp add: thompson_sampling_anchor_points_logic_def)
  have c: "kw_type_anchor_points_logic
     \<lparr> kw_model = None :: unit option, kw_type_anchor_points_logic = Some ''max_objectiv'' \<rparr> =
     Some ''max_objectiv''" by simp
  have l: "type_anchor_points_logic (ao_with ''lbfgs'' ''max_objectiv'') = ''max_objectiv''"
    by (simp add: ao_with_def)
  have ch: "fst (choose_optimizer (collab [[1, 2, 3]])
      (optimizer_name (ao_with ''lbfgs'' ''max_objectiv''))
      (noncontext_bounds (context_manager (ao_with ''lbfgs'' ''max_objectiv'')))) = Inr ''lbfgs''"
    by (simp add: collab_def ao_with_def)
  from unknown_logic_unbound_local [OF a b c, of space3 "''lbfgs''" "collab [[1, 2, 3]]"
      "Some ''f''" None None None None]
  have "snd (optimize (collab [[1, 2, 3]]) (ao_with ''lbfgs'' ''max_objectiv'')
          (Some ''f'') None None None None) =
     (case fst (choose_optimizer (collab [[1, 2, 3]])
                  (optimizer_name (ao_with ''lbfgs'' ''max_objectiv''))
                  (noncontext_bounds (context_manager (ao_with ''lbfgs'' ''max_objectiv'')))) of
        Inl e \<Rightarrow> Inl e | Inr opt \<Rightarrow> Inl UnboundLocalError)"
    using l by blast
  with ch a b c i show ?thesis by simp
qed

text \<open>
  C10 as stated fails: with an unknown optimizer name as well, the constructor returns
  and the call fails in \<^verbatim>\<open>choose_optimizer\<close>, with its exception and not with
  \<^verbatim>\<open>UnboundLocalError\<close>.
\<close>

theorem unknown_optimizer_fails_first:
  "AcquisitionOptimizer_init space3 ''bogus''
     \<lparr> kw_model = None, kw_type_anchor_points_logic = Some ''max_objectiv'' \<rparr> =
     Inr (ao_with ''bogus'' ''max_objectiv'') \<and>
   snd (optimize (collab [[1, 2, 3]]) (ao_with ''bogus'' ''max_objectiv'')
          (Some ''f'') None None None None) =
     Inl (CollaboratorError ''UnsupportedOptimizerError'') \<and>
   CollaboratorError ''UnsupportedOptimizerError'' \<noteq> UnboundLocalError"
  by (simp add: AcquisitionOptimizer_init_def ContextManager_init_def run_optimize)

end
